theory Spec2Isabelle
  imports Main "HOL-Library.Product_Lexorder"
begin

section \<open>Data model\<close>

text \<open>
  The sliding-token puzzle of the repository: an 8 by 8 module (\<^verbatim>\<open>SmallBoard\<close>) has two
  faces; four rotated modules are assembled into the 16 by 16 \<^verbatim>\<open>Board\<close>; the
  \<^verbatim>\<open>PathFinder\<close> simulates slides with refraction and searches breadth first.
  Strings of the source that range over a fixed vocabulary are datatypes here.
\<close>

datatype side = WTop | WRight | WBottom | WLeft

datatype direction = Up | Down | DLeft | DRight

datatype color = Red | Yellow | Blue | Green | Rainbow

datatype prism_direction = Backslash | Slash

datatype shape = Circle | Triangle | Square | Hexagon

datatype error =
    InvalidRotationAngle
  | InvalidGapPosition
  | InvalidPrismColor
  | FaceNotFound
  | SmallBoardNotFound
  | DuplicateColor
  | NotFourColors
  | TypeError

record prism =
  prism_x :: int
  prism_y :: int
  prism_dir :: prism_direction
  prism_color :: color

record target =
  target_x :: int
  target_y :: int
  target_shape :: shape
  target_color :: color
  target_id :: string

section \<open>Rotator\<close>

text \<open>\<^verbatim>\<open>CONSTANTS.SMALL_BOARD_SIZE\<close> and \<^verbatim>\<open>CONSTANTS.LARGE_BOARD_SIZE\<close>.\<close>

definition SMALL_BOARD_SIZE :: int where
  "SMALL_BOARD_SIZE = 8"

definition LARGE_BOARD_SIZE :: int where
  "LARGE_BOARD_SIZE = 16"

text \<open>\<^verbatim>\<open>Rotator.rotatePoint\<close>: the \<^verbatim>\<open>switch\<close> on the angle, its \<^verbatim>\<open>default\<close> throwing.\<close>

definition rotatePoint :: "int \<Rightarrow> int \<Rightarrow> nat \<Rightarrow> int \<Rightarrow> error + (int \<times> int)" where
  "rotatePoint x y angle sz =
     (let maxIndex = sz - 1 in
      if angle = 0 then Inr (x, y)
      else if angle = 90 then Inr (maxIndex - y, x)
      else if angle = 180 then Inr (maxIndex - x, maxIndex - y)
      else if angle = 270 then Inr (y, maxIndex - x)
      else Inl InvalidRotationAngle)"

text \<open>
  \<^verbatim>\<open>Math.floor((angle / 90) % 4)\<close>: on a non-negative integer angle this is the integer
  quotient taken modulo 4.
\<close>

definition rotations :: "nat \<Rightarrow> nat" where
  "rotations angle = (angle div 90) mod 4"

definition rotatePrismDirection :: "prism_direction \<Rightarrow> nat \<Rightarrow> prism_direction" where
  "rotatePrismDirection d angle =
     (if rotations angle = 0 \<or> rotations angle = 2 then d
      else (if d = Backslash then Slash else Backslash))"

text \<open>The array \<^verbatim>\<open>['top', 'right', 'bottom', 'left']\<close> and \<^verbatim>\<open>indexOf\<close> on it.\<close>

definition sides :: "side list" where
  "sides = [WTop, WRight, WBottom, WLeft]"

fun side_index :: "side \<Rightarrow> nat" where
  "side_index WTop = 0"
| "side_index WRight = 1"
| "side_index WBottom = 2"
| "side_index WLeft = 3"

definition rotateWallSide :: "side \<Rightarrow> nat \<Rightarrow> side" where
  "rotateWallSide s angle = sides ! ((side_index s + rotations angle) mod 4)"

text \<open>The array \<^verbatim>\<open>['up', 'right', 'down', 'left']\<close> of \<^verbatim>\<open>rotateDirection\<close>.\<close>

definition directions_cw :: "direction list" where
  "directions_cw = [Up, DRight, Down, DLeft]"

fun direction_index :: "direction \<Rightarrow> nat" where
  "direction_index Up = 0"
| "direction_index DRight = 1"
| "direction_index Down = 2"
| "direction_index DLeft = 3"

definition rotateDirection :: "direction \<Rightarrow> nat \<Rightarrow> direction" where
  "rotateDirection d angle = directions_cw ! ((direction_index d + rotations angle) mod 4)"

text \<open>\<^verbatim>\<open>Rotator.calculateRotationAngle\<close>, with \<^verbatim>\<open>getCorner\<close> throwing off the corners.\<close>

definition getCorner :: "int \<times> int \<Rightarrow> error + nat" where
  "getCorner pos =
     (let maxIndex = SMALL_BOARD_SIZE - 1 in
      if fst pos = 0 \<and> snd pos = 0 then Inr 0
      else if fst pos = maxIndex \<and> snd pos = 0 then Inr 1
      else if fst pos = maxIndex \<and> snd pos = maxIndex then Inr 2
      else if fst pos = 0 \<and> snd pos = maxIndex then Inr 3
      else Inl InvalidGapPosition)"

definition calculateRotationAngle :: "int \<times> int \<Rightarrow> int \<times> int \<Rightarrow> error + nat" where
  "calculateRotationAngle originalGap targetGap =
     (case getCorner originalGap of
        Inl e \<Rightarrow> Inl e
      | Inr originalCorner \<Rightarrow>
          (case getCorner targetGap of
             Inl e \<Rightarrow> Inl e
           | Inr targetCorner \<Rightarrow>
               Inr (nat ((int targetCorner - int originalCorner + 4) mod 4) * 90)))"

section \<open>Prism and Target\<close>

text \<open>
  The constructor of \<^verbatim>\<open>Prism\<close> accepts the first four colours only; the orientation is
  one of the two diagonals by its type.
\<close>

definition newPrism :: "int \<Rightarrow> int \<Rightarrow> prism_direction \<Rightarrow> color \<Rightarrow> error + prism" where
  "newPrism x y d c =
     (if c \<in> set [Red, Yellow, Blue, Green]
      then Inr \<lparr>prism_x = x, prism_y = y, prism_dir = d, prism_color = c\<rparr>
      else Inl InvalidPrismColor)"

text \<open>\<^verbatim>\<open>Prism.calculateRefraction\<close>: the two lookup tables.\<close>

fun refractionMap_backslash :: "direction \<Rightarrow> direction" where
  "refractionMap_backslash DRight = Down"
| "refractionMap_backslash Down = DRight"
| "refractionMap_backslash DLeft = Up"
| "refractionMap_backslash Up = DLeft"

fun refractionMap_slash :: "direction \<Rightarrow> direction" where
  "refractionMap_slash DRight = Up"
| "refractionMap_slash Up = DRight"
| "refractionMap_slash DLeft = Down"
| "refractionMap_slash Down = DLeft"

definition calculateRefraction :: "prism \<Rightarrow> direction \<Rightarrow> direction" where
  "calculateRefraction p inDirection =
     (if prism_dir p = Backslash then refractionMap_backslash inDirection
      else refractionMap_slash inDirection)"

definition refract :: "prism \<Rightarrow> direction \<Rightarrow> color \<Rightarrow> direction" where
  "refract p inDirection robotColor =
     (if robotColor = prism_color p then inDirection
      else calculateRefraction p inDirection)"

definition canPassThrough :: "prism \<Rightarrow> color \<Rightarrow> bool" where
  "canPassThrough p robotColor = (robotColor = prism_color p)"

definition prism_rotate :: "prism \<Rightarrow> nat \<Rightarrow> int \<Rightarrow> error + prism" where
  "prism_rotate p angle sz =
     (case rotatePoint (prism_x p) (prism_y p) angle sz of
        Inl e \<Rightarrow> Inl e
      | Inr newPos \<Rightarrow>
          newPrism (fst newPos) (snd newPos) (rotatePrismDirection (prism_dir p) angle)
            (prism_color p))"

definition target_rotate :: "target \<Rightarrow> nat \<Rightarrow> int \<Rightarrow> error + target" where
  "target_rotate t angle sz =
     (case rotatePoint (target_x t) (target_y t) angle sz of
        Inl e \<Rightarrow> Inl e
      | Inr newPos \<Rightarrow> Inr (t\<lparr>target_x := fst newPos, target_y := snd newPos\<rparr>))"

section \<open>Cell\<close>

record cell =
  cell_x :: int
  cell_y :: int
  walls :: "side \<Rightarrow> bool"
  cell_prism :: "prism option"
  cell_target :: "target option"

definition newCell :: "int \<Rightarrow> int \<Rightarrow> cell" where
  "newCell x y =
     \<lparr>cell_x = x, cell_y = y, walls = (\<lambda>s. False), cell_prism = None, cell_target = None\<rparr>"

definition hasWall :: "cell \<Rightarrow> side \<Rightarrow> bool" where
  "hasWall c s = (walls c s = True)"

definition setWall :: "cell \<Rightarrow> side \<Rightarrow> bool \<Rightarrow> cell" where
  "setWall c s v = c\<lparr>walls := (walls c)(s := v)\<rparr>"

definition setPrism :: "cell \<Rightarrow> prism \<Rightarrow> cell" where
  "setPrism c p = c\<lparr>cell_prism := Some p\<rparr>"

definition setTarget :: "cell \<Rightarrow> target \<Rightarrow> cell" where
  "setTarget c t = c\<lparr>cell_target := Some t\<rparr>"

definition hasPrism :: "cell \<Rightarrow> bool" where
  "hasPrism c = (cell_prism c \<noteq> None)"

definition hasTarget :: "cell \<Rightarrow> bool" where
  "hasTarget c = (cell_target c \<noteq> None)"

definition clear :: "cell \<Rightarrow> cell" where
  "clear c = c\<lparr>cell_prism := None, cell_target := None\<rparr>"

text \<open>
  The two-dimensional array \<^verbatim>\<open>cells[y][x]\<close> is a function of the coordinate pair
  \<open>(x, y)\<close>. The source reads and writes it inside its index range only, under loops or
  explicit range checks; the writes of \<^verbatim>\<open>createCells\<close> that take their indices from
  the face data are the exception, and are range-checked below (a \<^verbatim>\<open>TypeError\<close> in
  JavaScript).
\<close>

type_synonym grid = "int \<times> int \<Rightarrow> cell"

definition emptyGrid :: grid where
  "emptyGrid = (\<lambda>(x, y). newCell x y)"

definition setWallAt :: "grid \<Rightarrow> int \<times> int \<Rightarrow> side \<Rightarrow> grid" where
  "setWallAt g p s = g(p := setWall (g p) s True)"

definition setPrismAt :: "grid \<Rightarrow> int \<times> int \<Rightarrow> prism \<Rightarrow> grid" where
  "setPrismAt g p pr = g(p := setPrism (g p) pr)"

definition setTargetAt :: "grid \<Rightarrow> int \<times> int \<Rightarrow> target \<Rightarrow> grid" where
  "setTargetAt g p t = g(p := setTarget (g p) t)"

text \<open>The index pairs of the nested loops \<^verbatim>\<open>for y ... for x ...\<close>, in their order.\<close>

definition coords :: "int \<Rightarrow> (int \<times> int) list" where
  "coords n = concat (map (\<lambda>y. map (\<lambda>x. (x, y)) [0..n - 1]) [0..n - 1])"

definition inRange :: "int \<Rightarrow> int \<Rightarrow> int \<Rightarrow> bool" where
  "inRange n x y = (x \<ge> 0 \<and> x < n \<and> y \<ge> 0 \<and> y < n)"

text \<open>A loop whose body may throw: the first error ends it.\<close>

fun foldE :: "('a \<Rightarrow> 's \<Rightarrow> error + 's) \<Rightarrow> 'a list \<Rightarrow> 's \<Rightarrow> error + 's" where
  "foldE f [] s = Inr s"
| "foldE f (x # xs) s = (case f x s of Inl e \<Rightarrow> Inl e | Inr s' \<Rightarrow> foldE f xs s')"

text \<open>The table \<^verbatim>\<open>opposites\<close> of \<^verbatim>\<open>syncAdjacentWall\<close> and of \<^verbatim>\<open>placeSmallBoards\<close>.\<close>

fun opposite_side :: "side \<Rightarrow> side" where
  "opposite_side WTop = WBottom"
| "opposite_side WBottom = WTop"
| "opposite_side WLeft = WRight"
| "opposite_side WRight = WLeft"

fun side_dx :: "side \<Rightarrow> int" where
  "side_dx WTop = 0"
| "side_dx WBottom = 0"
| "side_dx WLeft = - 1"
| "side_dx WRight = 1"

fun side_dy :: "side \<Rightarrow> int" where
  "side_dy WTop = - 1"
| "side_dy WBottom = 1"
| "side_dy WLeft = 0"
| "side_dy WRight = 0"

section \<open>SmallBoard\<close>

record wallData =
  wd_x :: int
  wd_y :: int
  wd_sides :: "side list"

record face =
  face_id :: nat
  face_walls :: "wallData list"
  face_prisms :: "prism list"
  face_targets :: "target list"

record smallBoard =
  sb_id :: nat
  sb_color :: color
  sb_originalGap :: "int \<times> int"
  sb_faces :: "face list"

definition getFace :: "smallBoard \<Rightarrow> nat \<Rightarrow> error + face" where
  "getFace sb faceId =
     (case find (\<lambda>f. face_id f = faceId) (sb_faces sb) of
        None \<Rightarrow> Inl FaceNotFound
      | Some f \<Rightarrow> Inr f)"

definition syncAdjacentWall :: "grid \<Rightarrow> int \<Rightarrow> int \<Rightarrow> side \<Rightarrow> grid" where
  "syncAdjacentWall g x y s =
     (let adjX = x + side_dx s; adjY = y + side_dy s in
      if adjX \<ge> 0 \<and> adjX < SMALL_BOARD_SIZE \<and> adjY \<ge> 0 \<and> adjY < SMALL_BOARD_SIZE
      then setWallAt g (adjX, adjY) (opposite_side s)
      else g)"

text \<open>
  One entry of \<^verbatim>\<open>face.walls\<close>. \<^verbatim>\<open>cells[wallData.y][wallData.x]\<close> throws on a row index
  out of range; on a column index out of range the cell is \<^verbatim>\<open>undefined\<close> and the first
  \<^verbatim>\<open>cell.setWall\<close> throws, so an entry without sides passes.
\<close>

definition addWallData :: "wallData \<Rightarrow> grid \<Rightarrow> error + grid" where
  "addWallData wd g =
     (if \<not> (wd_y wd \<ge> 0 \<and> wd_y wd < SMALL_BOARD_SIZE) then Inl TypeError
      else if wd_sides wd = [] then Inr g
      else if \<not> (wd_x wd \<ge> 0 \<and> wd_x wd < SMALL_BOARD_SIZE) then Inl TypeError
      else Inr (fold (\<lambda>s g'. syncAdjacentWall (setWallAt g' (wd_x wd, wd_y wd) s) (wd_x wd) (wd_y wd) s)
                  (wd_sides wd) g))"

definition addPrismData :: "prism \<Rightarrow> grid \<Rightarrow> error + grid" where
  "addPrismData pd g =
     (case newPrism (prism_x pd) (prism_y pd) (prism_dir pd) (prism_color pd) of
        Inl e \<Rightarrow> Inl e
      | Inr p \<Rightarrow>
          if inRange SMALL_BOARD_SIZE (prism_x p) (prism_y p)
          then Inr (setPrismAt g (prism_x p, prism_y p) p)
          else Inl TypeError)"

definition addTargetData :: "target \<Rightarrow> grid \<Rightarrow> error + grid" where
  "addTargetData t g =
     (if inRange SMALL_BOARD_SIZE (target_x t) (target_y t)
      then Inr (setTargetAt g (target_x t, target_y t) t)
      else Inl TypeError)"

definition createCells :: "smallBoard \<Rightarrow> nat \<Rightarrow> error + grid" where
  "createCells sb faceId =
     (case getFace sb faceId of
        Inl e \<Rightarrow> Inl e
      | Inr f \<Rightarrow>
          (case foldE addWallData (face_walls f) emptyGrid of
             Inl e \<Rightarrow> Inl e
           | Inr g1 \<Rightarrow>
               (case foldE addPrismData (face_prisms f) g1 of
                  Inl e \<Rightarrow> Inl e
                | Inr g2 \<Rightarrow> foldE addTargetData (face_targets f) g2)))"

text \<open>
  The body of the double loop of \<^verbatim>\<open>rotateCells\<close> for the old cell at \<open>(x, y)\<close>: its walls,
  its prism and its target are rotated into the new cell at the rotated position.
\<close>

definition rotateCell :: "nat \<Rightarrow> grid \<Rightarrow> int \<times> int \<Rightarrow> grid \<Rightarrow> error + grid" where
  "rotateCell angle originalCells xy rotatedCells =
     (let oldCell = originalCells xy in
      case rotatePoint (fst xy) (snd xy) angle SMALL_BOARD_SIZE of
        Inl e \<Rightarrow> Inl e
      | Inr newPos \<Rightarrow>
          (let r1 = fold (\<lambda>s g. if hasWall oldCell s
                                 then setWallAt g newPos (rotateWallSide s angle) else g)
                      sides rotatedCells
           in case (case cell_prism oldCell of
                      None \<Rightarrow> Inr r1
                    | Some p \<Rightarrow>
                        (case prism_rotate p angle SMALL_BOARD_SIZE of
                           Inl e \<Rightarrow> Inl e
                         | Inr rotatedPrism \<Rightarrow> Inr (setPrismAt r1 newPos rotatedPrism))) of
                Inl e \<Rightarrow> Inl e
              | Inr r2 \<Rightarrow>
                  (case cell_target oldCell of
                     None \<Rightarrow> Inr r2
                   | Some t \<Rightarrow>
                       (case target_rotate t angle SMALL_BOARD_SIZE of
                          Inl e \<Rightarrow> Inl e
                        | Inr rotatedTarget \<Rightarrow> Inr (setTargetAt r2 newPos rotatedTarget)))))"

text \<open>The rotation of a materialised grid: the part of \<^verbatim>\<open>rotateCells\<close> after \<^verbatim>\<open>createCells\<close>.\<close>

definition rotateGrid :: "nat \<Rightarrow> grid \<Rightarrow> error + grid" where
  "rotateGrid angle originalCells =
     foldE (rotateCell angle originalCells) (coords SMALL_BOARD_SIZE) emptyGrid"

definition rotateCells :: "smallBoard \<Rightarrow> nat \<Rightarrow> nat \<Rightarrow> error + grid" where
  "rotateCells sb faceId angle =
     (if angle = 0 then createCells sb faceId
      else (case createCells sb faceId of
              Inl e \<Rightarrow> Inl e
            | Inr originalCells \<Rightarrow> rotateGrid angle originalCells))"

datatype position = TopLeft | TopRight | BottomLeft | BottomRight

text \<open>\<^verbatim>\<open>CONSTANTS.TARGET_GAPS\<close>.\<close>

fun TARGET_GAPS :: "position \<Rightarrow> int \<times> int" where
  "TARGET_GAPS TopLeft = (7, 7)"
| "TARGET_GAPS TopRight = (0, 7)"
| "TARGET_GAPS BottomLeft = (7, 0)"
| "TARGET_GAPS BottomRight = (0, 0)"

definition calculateRotationForPosition :: "smallBoard \<Rightarrow> position \<Rightarrow> error + nat" where
  "calculateRotationForPosition sb targetPosition =
     calculateRotationAngle (sb_originalGap sb) (TARGET_GAPS targetPosition)"

section \<open>Board\<close>

record boardConfig =
  boardId :: nat
  faceId :: nat

record board =
  board_size :: int
  cells :: grid
  board_targets :: "target list"

text \<open>
  \<^verbatim>\<open>createEmptyCells\<close>: fresh cells, then the walls of the outer boundary. \<^verbatim>\<open>cells[0][i]\<close>
  is the cell at \<open>(i, 0)\<close>.
\<close>

definition createEmptyCells :: grid where
  "createEmptyCells =
     fold (\<lambda>i g.
            setWallAt
              (setWallAt
                (setWallAt
                  (setWallAt g (i, 0) WTop)
                  (i, LARGE_BOARD_SIZE - 1) WBottom)
                (0, i) WLeft)
              (LARGE_BOARD_SIZE - 1, i) WRight)
       [0..LARGE_BOARD_SIZE - 1] emptyGrid"

definition lookupSmallBoard :: "smallBoard list \<Rightarrow> nat \<Rightarrow> smallBoard option" where
  "lookupSmallBoard smallBoards i = (if i < length smallBoards then Some (smallBoards ! i) else None)"

definition validateStep :: "smallBoard list \<Rightarrow> boardConfig \<Rightarrow> color list \<Rightarrow> error + color list" where
  "validateStep smallBoards bc colors =
     (case lookupSmallBoard smallBoards (boardId bc) of
        None \<Rightarrow> Inl SmallBoardNotFound
      | Some sb \<Rightarrow>
          if sb_color sb \<in> set colors then Inl DuplicateColor
          else Inr (colors @ [sb_color sb]))"

definition validateConfig :: "boardConfig list \<Rightarrow> smallBoard list \<Rightarrow> error + unit" where
  "validateConfig config smallBoards =
     (case foldE (validateStep smallBoards) config [] of
        Inl e \<Rightarrow> Inl e
      | Inr colors \<Rightarrow> if length colors \<noteq> 4 then Inl NotFourColors else Inr ())"

fun offsets :: "position \<Rightarrow> int \<times> int" where
  "offsets TopLeft = (0, 0)"
| "offsets TopRight = (8, 0)"
| "offsets BottomLeft = (0, 8)"
| "offsets BottomRight = (8, 8)"

definition isRealOuterBoundary :: "side \<Rightarrow> int \<Rightarrow> int \<Rightarrow> bool" where
  "isRealOuterBoundary s targetX targetY =
     ((s = WTop \<and> targetY = 0) \<or>
      (s = WBottom \<and> targetY = LARGE_BOARD_SIZE - 1) \<or>
      (s = WLeft \<and> targetX = 0) \<or>
      (s = WRight \<and> targetX = LARGE_BOARD_SIZE - 1))"

text \<open>One wall of a source cell: skipped on the true outer boundary, else set and mirrored.\<close>

definition copyWall :: "int \<Rightarrow> int \<Rightarrow> side \<Rightarrow> grid \<Rightarrow> grid" where
  "copyWall targetX targetY s g =
     (if \<not> isRealOuterBoundary s targetX targetY then
        (let g1 = setWallAt g (targetX, targetY) s;
             adjX = targetX + side_dx s;
             adjY = targetY + side_dy s
         in if adjX \<ge> 0 \<and> adjX < LARGE_BOARD_SIZE \<and> adjY \<ge> 0 \<and> adjY < LARGE_BOARD_SIZE
            then setWallAt g1 (adjX, adjY) (opposite_side s)
            else g1)
      else g)"

text \<open>\<^verbatim>\<open>clone\<close> runs the constructor again.\<close>

definition prism_clone :: "prism \<Rightarrow> error + prism" where
  "prism_clone p = newPrism (prism_x p) (prism_y p) (prism_dir p) (prism_color p)"

definition copyCell :: "int \<times> int \<Rightarrow> grid \<Rightarrow> int \<times> int \<Rightarrow> grid \<Rightarrow> error + grid" where
  "copyCell offset rotatedCells xy g =
     (let sourceCell = rotatedCells xy;
          targetX = fst offset + fst xy;
          targetY = snd offset + snd xy;
          g1 = fold (\<lambda>s g'. if hasWall sourceCell s then copyWall targetX targetY s g' else g')
                 sides g
      in case (case cell_prism sourceCell of
                 None \<Rightarrow> Inr g1
               | Some p \<Rightarrow>
                   (case prism_clone p of
                      Inl e \<Rightarrow> Inl e
                    | Inr p' \<Rightarrow>
                        Inr (setPrismAt g1 (targetX, targetY)
                               (p'\<lparr>prism_x := targetX, prism_y := targetY\<rparr>)))) of
           Inl e \<Rightarrow> Inl e
         | Inr g2 \<Rightarrow>
             (case cell_target sourceCell of
                None \<Rightarrow> Inr g2
              | Some t \<Rightarrow>
                  Inr (setTargetAt g2 (targetX, targetY)
                         (t\<lparr>target_x := targetX, target_y := targetY\<rparr>))))"

definition placeOne :: "boardConfig list \<Rightarrow> smallBoard list \<Rightarrow> position \<times> nat \<Rightarrow> grid \<Rightarrow> error + grid" where
  "placeOne config smallBoards pi g =
     (if \<not> snd pi < length config then Inl TypeError
      else
        (let boardConfig = config ! snd pi in
         case lookupSmallBoard smallBoards (boardId boardConfig) of
           None \<Rightarrow> Inl SmallBoardNotFound
         | Some sb \<Rightarrow>
             (case calculateRotationForPosition sb (fst pi) of
                Inl e \<Rightarrow> Inl e
              | Inr angle \<Rightarrow>
                  (case rotateCells sb (faceId boardConfig) angle of
                     Inl e \<Rightarrow> Inl e
                   | Inr rotatedCells \<Rightarrow>
                       foldE (copyCell (offsets (fst pi)) rotatedCells)
                         (coords SMALL_BOARD_SIZE) g))))"

definition placeSmallBoards :: "boardConfig list \<Rightarrow> smallBoard list \<Rightarrow> grid \<Rightarrow> error + grid" where
  "placeSmallBoards config smallBoards g =
     foldE (placeOne config smallBoards)
       [(TopLeft, 0), (TopRight, 1), (BottomLeft, 2), (BottomRight, 3)] g"

text \<open>\<^verbatim>\<open>CONSTANTS.CENTRAL_BLOCKED\<close>: columns 7 and 8, rows 7 and 8.\<close>

definition blocked_x :: "int list" where
  "blocked_x = [7, 8]"

definition blocked_y :: "int list" where
  "blocked_y = [7, 8]"

definition sealCell :: "cell \<Rightarrow> cell" where
  "sealCell c = clear (setWall (setWall (setWall (setWall c WTop True) WRight True) WBottom True) WLeft True)"

definition setCentralBlockedArea :: "grid \<Rightarrow> grid" where
  "setCentralBlockedArea g =
     (let g1 = fold (\<lambda>y g'. fold (\<lambda>x g''. g''((x, y) := sealCell (g'' (x, y))))
                              [blocked_x ! 0..blocked_x ! 1] g')
                 [blocked_y ! 0..blocked_y ! 1] g;
          g2 = fold (\<lambda>y g'. if blocked_x ! 0 > 0 then setWallAt g' (blocked_x ! 0 - 1, y) WRight else g')
                 [blocked_y ! 0..blocked_y ! 1] g1;
          g3 = fold (\<lambda>y g'. if blocked_x ! 1 < LARGE_BOARD_SIZE - 1
                             then setWallAt g' (blocked_x ! 1 + 1, y) WLeft else g')
                 [blocked_y ! 0..blocked_y ! 1] g2;
          g4 = fold (\<lambda>x g'. if blocked_y ! 0 > 0 then setWallAt g' (x, blocked_y ! 0 - 1) WBottom else g')
                 [blocked_x ! 0..blocked_x ! 1] g3
      in fold (\<lambda>x g'. if blocked_y ! 1 < LARGE_BOARD_SIZE - 1
                        then setWallAt g' (x, blocked_y ! 1 + 1) WTop else g')
           [blocked_x ! 0..blocked_x ! 1] g4)"

definition collectTargets :: "grid \<Rightarrow> target list" where
  "collectTargets g =
     concat (map (\<lambda>xy. case cell_target (g xy) of None \<Rightarrow> [] | Some t \<Rightarrow> [t])
               (coords LARGE_BOARD_SIZE))"

text \<open>
  \<^verbatim>\<open>Board.init\<close>, run by the constructor on a configuration given as an array: the five
  steps in their order. A thrown error leaves no board.
\<close>

definition init :: "boardConfig list \<Rightarrow> smallBoard list \<Rightarrow> error + board" where
  "init config smallBoards =
     (case validateConfig config smallBoards of
        Inl e \<Rightarrow> Inl e
      | Inr u \<Rightarrow>
          (case placeSmallBoards config smallBoards createEmptyCells of
             Inl e \<Rightarrow> Inl e
           | Inr g \<Rightarrow>
               (let g' = setCentralBlockedArea g in
                Inr \<lparr>board_size = LARGE_BOARD_SIZE, cells = g', board_targets = collectTargets g'\<rparr>)))"

definition getCell :: "board \<Rightarrow> int \<Rightarrow> int \<Rightarrow> cell option" where
  "getCell b x y =
     (if x < 0 \<or> x \<ge> board_size b \<or> y < 0 \<or> y \<ge> board_size b then None
      else Some (cells b (x, y)))"

definition isInCentralArea :: "int \<Rightarrow> int \<Rightarrow> bool" where
  "isInCentralArea x y = (x \<in> set blocked_x \<and> y \<in> set blocked_y)"

definition isValidPosition :: "board \<Rightarrow> int \<Rightarrow> int \<Rightarrow> bool" where
  "isValidPosition b x y =
     (if x < 0 \<or> x \<ge> board_size b \<or> y < 0 \<or> y \<ge> board_size b then False
      else \<not> isInCentralArea x y)"

section \<open>PathFinder: the move simulation\<close>

record robot =
  robot_color :: color
  robot_x :: int
  robot_y :: int

text \<open>The table \<^verbatim>\<open>deltas\<close> and the table \<^verbatim>\<open>wallMap\<close>.\<close>

fun delta_dx :: "direction \<Rightarrow> int" where
  "delta_dx Up = 0"
| "delta_dx Down = 0"
| "delta_dx DLeft = - 1"
| "delta_dx DRight = 1"

fun delta_dy :: "direction \<Rightarrow> int" where
  "delta_dy Up = - 1"
| "delta_dy Down = 1"
| "delta_dy DLeft = 0"
| "delta_dy DRight = 0"

fun wallMap :: "direction \<Rightarrow> side" where
  "wallMap Up = WTop"
| "wallMap Down = WBottom"
| "wallMap DLeft = WLeft"
| "wallMap DRight = WRight"

definition hasWallInDirection :: "cell option \<Rightarrow> direction \<Rightarrow> bool" where
  "hasWallInDirection c d = (case c of None \<Rightarrow> True | Some c' \<Rightarrow> hasWall c' (wallMap d))"

text \<open>
  The four checks of one pass of the \<^verbatim>\<open>while (true)\<close> loop of \<^verbatim>\<open>moveInDirection\<close>, in
  their order: any of them breaks the loop.
\<close>

definition hasOtherRobot :: "robot list \<Rightarrow> int \<Rightarrow> int \<Rightarrow> int \<Rightarrow> int \<Rightarrow> bool" where
  "hasOtherRobot allRobots startX startY nextX nextY =
     list_ex (\<lambda>r. robot_x r = nextX \<and> robot_y r = nextY \<and>
                  \<not> (robot_x r = startX \<and> robot_y r = startY)) allRobots"

definition stepBlocked :: "board \<Rightarrow> int \<Rightarrow> int \<Rightarrow> direction \<Rightarrow> robot list \<Rightarrow> int \<Rightarrow> int \<Rightarrow> bool" where
  "stepBlocked b startX startY d allRobots x y =
     (let nextX = x + delta_dx d; nextY = y + delta_dy d in
      if nextX < 0 \<or> nextX \<ge> board_size b \<or> nextY < 0 \<or> nextY \<ge> board_size b then True
      else if isInCentralArea nextX nextY then True
      else if hasWallInDirection (getCell b x y) d then True
      else hasOtherRobot allRobots startX startY nextX nextY)"

text \<open>
  The loop of \<^verbatim>\<open>moveInDirection\<close> from the cell \<open>(x, y)\<close>: it returns
  \<^verbatim>\<open>{moved, x, y}\<close>. A pass that is not blocked advances one cell and stops there when the
  cell holds a prism.
\<close>

function moveLoop ::
  "board \<Rightarrow> int \<Rightarrow> int \<Rightarrow> direction \<Rightarrow> robot list \<Rightarrow> int \<Rightarrow> int \<Rightarrow> bool \<Rightarrow> bool \<times> int \<times> int" where
  "moveLoop b startX startY d allRobots x y movedAtLeastOnce =
     (if stepBlocked b startX startY d allRobots x y then (movedAtLeastOnce, x, y)
      else
        (let nextX = x + delta_dx d; nextY = y + delta_dy d in
         case getCell b nextX nextY of
           None \<Rightarrow> moveLoop b startX startY d allRobots nextX nextY True
         | Some nextCell \<Rightarrow>
             if hasPrism nextCell then (True, nextX, nextY)
             else moveLoop b startX startY d allRobots nextX nextY True))"
  by pat_completeness auto
termination
  by (relation "measure (\<lambda>(b, startX, startY, d, allRobots, x, y, m).
        case d of
          DRight \<Rightarrow> nat (board_size b - x)
        | DLeft \<Rightarrow> nat (x + 1)
        | Down \<Rightarrow> nat (board_size b - y)
        | Up \<Rightarrow> nat (y + 1))")
    (auto simp: stepBlocked_def Let_def split: if_splits direction.splits)

declare moveLoop.simps [simp del]

definition moveInDirection :: "board \<Rightarrow> int \<Rightarrow> int \<Rightarrow> direction \<Rightarrow> robot list \<Rightarrow> bool \<times> int \<times> int" where
  "moveInDirection b startX startY d allRobots = moveLoop b startX startY d allRobots startX startY False"

record segment =
  seg_from :: "int \<times> int \<times> direction"
  seg_to :: "int \<times> int"
  seg_direction :: direction

record moveResult =
  moved :: bool
  finalX :: int
  finalY :: int
  segments :: "segment list"

text \<open>
  The loop \<^verbatim>\<open>while (stepCount < maxSteps)\<close> of \<^verbatim>\<open>simulateMove\<close>, with \<^verbatim>\<open>maxSteps = 100\<close>. Its
  state is the position, the current direction, the segments, the set \<^verbatim>\<open>visited\<close> of keys
  \<^verbatim>\<open>x,y,newDir\<close> and the counter. The flag \<^verbatim>\<open>firstMove\<close> is left out: both of its branches
  break.
\<close>

function simLoop ::
  "board \<Rightarrow> robot \<Rightarrow> robot list \<Rightarrow> int \<Rightarrow> int \<Rightarrow> direction \<Rightarrow> segment list \<Rightarrow>
   (int \<times> int \<times> direction) list \<Rightarrow> nat \<Rightarrow> int \<times> int \<times> segment list" where
  "simLoop b rob allRobots x y currentDir segs visited stepCount =
     (if \<not> stepCount < 100 then (x, y, segs)
      else
        (case moveInDirection b x y currentDir allRobots of
           (mv, x', y') \<Rightarrow>
             if \<not> mv then (x, y, segs)
             else
               (let segs' = segs @ [\<lparr>seg_from = (x, y, currentDir), seg_to = (x', y'),
                                      seg_direction = currentDir\<rparr>] in
                case getCell b x' y' of
                  None \<Rightarrow> (x', y', segs')
                | Some c \<Rightarrow>
                    (case cell_prism c of
                       None \<Rightarrow> (x', y', segs')
                     | Some p \<Rightarrow>
                         (let newDir = refract p currentDir (robot_color rob) in
                          if newDir = currentDir then (x', y', segs')
                          else if (x', y', newDir) \<in> set visited then (x', y', segs')
                          else simLoop b rob allRobots x' y' newDir segs'
                                 ((x', y', newDir) # visited) (stepCount + 1))))))"
  by pat_completeness auto
termination
  by (relation "measure (\<lambda>(b, rob, allRobots, x, y, currentDir, segs, visited, stepCount).
        100 - stepCount)") auto

declare simLoop.simps [simp del]

definition simulateMove :: "board \<Rightarrow> robot \<Rightarrow> direction \<Rightarrow> robot list \<Rightarrow> moveResult" where
  "simulateMove b rob d allRobots =
     (case simLoop b rob allRobots (robot_x rob) (robot_y rob) d [] [] 0 of
        (fx, fy, segs) \<Rightarrow>
          \<lparr>moved = (fx \<noteq> robot_x rob \<or> fy \<noteq> robot_y rob), finalX = fx, finalY = fy,
           segments = segs\<rparr>)"

section \<open>PathFinder: the search\<close>

record action =
  act_robotColor :: color
  act_direction :: direction
  act_from :: "int \<times> int"
  act_to :: "int \<times> int"
  act_segments :: "segment list"

record state =
  st_robots :: "robot list"
  st_path :: "action list"
  st_steps :: nat

datatype failure = RobotNotFound color | TargetInvalid | SearchSpaceTooLarge | NoPathFound

text \<open>
  The object that \<^verbatim>\<open>findPath\<close> returns. A property that the object does not have is \<open>None\<close>:
  the two failures of \<^verbatim>\<open>findPath\<close> itself carry \<^verbatim>\<open>success\<close> and \<^verbatim>\<open>message\<close> only. The
  readings of \<^verbatim>\<open>performance.now()\<close> are inputs of the model: \<open>startTime\<close> at the call and
  \<open>now\<close> at the return.
\<close>

record searchResult =
  success :: bool
  message :: "failure option"
  steps :: "nat option"
  path :: "action list option"
  statesExplored :: "nat option"
  time :: "int option"

definition failed :: "failure \<Rightarrow> searchResult" where
  "failed m =
     \<lparr>success = False, message = Some m, steps = None, path = None,
      statesExplored = None, time = None\<rparr>"

definition failedWith :: "failure \<Rightarrow> nat \<Rightarrow> int \<Rightarrow> searchResult" where
  "failedWith m n t =
     \<lparr>success = False, message = Some m, steps = None, path = None,
      statesExplored = Some n, time = Some t\<rparr>"

definition succeeded :: "nat \<Rightarrow> action list \<Rightarrow> nat \<Rightarrow> int \<Rightarrow> searchResult" where
  "succeeded k p n t =
     \<lparr>success = True, message = None, steps = Some k, path = Some p,
      statesExplored = Some n, time = Some t\<rparr>"

text \<open>
  \<^verbatim>\<open>stateToString\<close> sorts the strings \<^verbatim>\<open>color:x,y\<close> of the robots and joins them. The set
  \<^verbatim>\<open>visited\<close> only compares such keys, so a key is modelled by the sorted list of the triples
  that the strings spell, under a fixed order in place of the order of the strings: two
  keys are equal exactly when the strings of the two states are the same up to their order.
\<close>

fun color_index :: "color \<Rightarrow> nat" where
  "color_index Red = 0"
| "color_index Yellow = 1"
| "color_index Blue = 2"
| "color_index Green = 3"
| "color_index Rainbow = 4"

definition robotKey :: "robot \<Rightarrow> nat \<times> int \<times> int" where
  "robotKey r = (color_index (robot_color r), robot_x r, robot_y r)"

definition stateToString :: "robot list \<Rightarrow> (nat \<times> int \<times> int) list" where
  "stateToString robots = sort (map robotKey robots)"

definition maxIterations :: nat where
  "maxIterations = 1000000"

text \<open>The array \<^verbatim>\<open>directions\<close> of \<^verbatim>\<open>bfsSearch\<close>, and the pairs of its two nested loops.\<close>

definition directions :: "direction list" where
  "directions = [Up, Down, DLeft, DRight]"

definition allMoves :: "robot list \<Rightarrow> (nat \<times> direction) list" where
  "allMoves robots = concat (map (\<lambda>i. map (\<lambda>d. (i, d)) directions) [0..<length robots])"

definition mkAction :: "robot \<Rightarrow> direction \<Rightarrow> moveResult \<Rightarrow> action" where
  "mkAction rob d mr =
     \<lparr>act_robotColor = robot_color rob, act_direction = d,
      act_from = (robot_x rob, robot_y rob), act_to = (finalX mr, finalY mr),
      act_segments = segments mr\<rparr>"

text \<open>
  What the body of the two nested loops leaves: the loops go on with a queue and a visited
  set, or \<^verbatim>\<open>bfsSearch\<close> returns, or a \<^verbatim>\<open>TypeError\<close> is thrown (reading \<^verbatim>\<open>movedRobot.x\<close> when
  no robot has the colour of the target robot).
\<close>

datatype loopExit = Continue "state list" "(nat \<times> int \<times> int) list list" | Return searchResult | Throw

fun tryMoves ::
  "board \<Rightarrow> color \<Rightarrow> int \<times> int \<Rightarrow> int \<Rightarrow> state \<Rightarrow> nat \<Rightarrow> (nat \<times> direction) list \<Rightarrow>
   state list \<Rightarrow> (nat \<times> int \<times> int) list list \<Rightarrow> loopExit" where
  "tryMoves b targetColor targetPos elapsed current explored [] queue visited =
     Continue queue visited"
| "tryMoves b targetColor targetPos elapsed current explored ((i, d) # ms) queue visited =
     (let rob = st_robots current ! i;
          moveResult = simulateMove b rob d (st_robots current)
      in if \<not> moved moveResult
         then tryMoves b targetColor targetPos elapsed current explored ms queue visited
         else
           (let newRobots = (st_robots current)
                  [i := \<lparr>robot_color = robot_color rob, robot_x = finalX moveResult,
                         robot_y = finalY moveResult\<rparr>]
            in case find (\<lambda>r. robot_color r = targetColor) newRobots of
                 None \<Rightarrow> Throw
               | Some movedRobot \<Rightarrow>
                   if robot_x movedRobot = fst targetPos \<and> robot_y movedRobot = snd targetPos
                   then
                     (let newSteps = st_steps current + 1
                      in if newSteps < 2
                         then tryMoves b targetColor targetPos elapsed current explored ms
                                queue visited
                         else Return (succeeded newSteps
                                (st_path current @ [mkAction rob d moveResult]) explored elapsed))
                   else
                     (let stateStr = stateToString newRobots
                      in if stateStr \<notin> set visited
                         then tryMoves b targetColor targetPos elapsed current explored ms
                                (queue @ [\<lparr>st_robots = newRobots,
                                           st_path = st_path current @ [mkAction rob d moveResult],
                                           st_steps = st_steps current + 1\<rparr>])
                                (stateStr # visited)
                         else tryMoves b targetColor targetPos elapsed current explored ms
                                queue visited)))"

text \<open>
  The loop \<^verbatim>\<open>while (queue.length > 0)\<close> of \<^verbatim>\<open>bfsSearch\<close>. Every pass counts one explored state
  and the loop gives up above \<^verbatim>\<open>maxIterations\<close>, which bounds the number of passes.
\<close>

function bfsLoop ::
  "board \<Rightarrow> color \<Rightarrow> int \<times> int \<Rightarrow> int \<Rightarrow> state list \<Rightarrow> (nat \<times> int \<times> int) list list \<Rightarrow> nat \<Rightarrow>
   error + searchResult" where
  "bfsLoop b targetColor targetPos elapsed queue visited explored =
     (case queue of
        [] \<Rightarrow> Inr (failedWith NoPathFound explored elapsed)
      | current # rest \<Rightarrow>
          if explored > maxIterations
          then Inr (failedWith SearchSpaceTooLarge explored elapsed)
          else
            (case tryMoves b targetColor targetPos elapsed current (explored + 1)
                    (allMoves (st_robots current)) rest visited of
               Throw \<Rightarrow> Inl TypeError
             | Return r \<Rightarrow> Inr r
             | Continue queue' visited' \<Rightarrow>
                 bfsLoop b targetColor targetPos elapsed queue' visited' (explored + 1)))"
  by pat_completeness auto
termination
  by (relation "measure (\<lambda>(b, targetColor, targetPos, elapsed, queue, visited, explored).
        maxIterations + 1 - explored)") auto

declare bfsLoop.simps [simp del]

definition bfsSearch :: "board \<Rightarrow> robot list \<Rightarrow> robot \<Rightarrow> int \<times> int \<Rightarrow> int \<Rightarrow> error + searchResult" where
  "bfsSearch b robots targetRobot targetPos elapsed =
     bfsLoop b (robot_color targetRobot) targetPos elapsed
       [\<lparr>st_robots = robots, st_path = [], st_steps = 0\<rparr>] [stateToString robots] 0"

definition findPath ::
  "board \<Rightarrow> robot list \<Rightarrow> color \<Rightarrow> int \<times> int \<Rightarrow> int \<Rightarrow> int \<Rightarrow> error + searchResult" where
  "findPath b robots robotColor targetPos startTime now =
     (case find (\<lambda>r. robot_color r = robotColor) robots of
        None \<Rightarrow> Inr (failed (RobotNotFound robotColor))
      | Some targetRobot \<Rightarrow>
          if \<not> isValidPosition b (fst targetPos) (snd targetPos)
          then Inr (failed TargetInvalid)
          else if robot_x targetRobot = fst targetPos \<and> robot_y targetRobot = snd targetPos
          then Inr (succeeded 0 [] 0 (now - startTime))
          else bfsSearch b robots targetRobot targetPos (now - startTime))"

section \<open>Closed forms of the assembled grid\<close>

text \<open>
  What the assembly loops leave in a cell, stated without the loops: the walls one copied
  wall sets, the walls and the prism one placed quadrant contributes, and the walls of the
  sealed centre. The lemmas below prove that the loops compute them.
\<close>

definition wallEffect :: "int \<Rightarrow> int \<Rightarrow> side \<Rightarrow> int \<times> int \<Rightarrow> side \<Rightarrow> bool" where
  "wallEffect X Y s q t =
     (\<not> isRealOuterBoundary s X Y \<and>
      ((q = (X, Y) \<and> t = s) \<or>
       (q = (X + side_dx s, Y + side_dy s) \<and> t = opposite_side s \<and>
        inRange LARGE_BOARD_SIZE (X + side_dx s) (Y + side_dy s))))"

definition placedWall :: "int \<times> int \<Rightarrow> grid \<Rightarrow> int \<times> int \<Rightarrow> side \<Rightarrow> bool" where
  "placedWall off rc q t =
     (let nx = fst q + side_dx t; ny = snd q + side_dy t in
      (inRange SMALL_BOARD_SIZE (fst q - fst off) (snd q - snd off) \<and>
       hasWall (rc (fst q - fst off, snd q - snd off)) t \<and>
       \<not> isRealOuterBoundary t (fst q) (snd q)) \<or>
      (inRange SMALL_BOARD_SIZE (nx - fst off) (ny - snd off) \<and>
       hasWall (rc (nx - fst off, ny - snd off)) (opposite_side t) \<and>
       \<not> isRealOuterBoundary (opposite_side t) nx ny \<and>
       inRange LARGE_BOARD_SIZE (fst q) (snd q)))"

definition placedPrism :: "int \<times> int \<Rightarrow> grid \<Rightarrow> int \<times> int \<Rightarrow> prism option \<Rightarrow> prism option" where
  "placedPrism off rc q old =
     (if inRange SMALL_BOARD_SIZE (fst q - fst off) (snd q - snd off) then
        (case cell_prism (rc (fst q - fst off, snd q - snd off)) of
           None \<Rightarrow> old
         | Some p \<Rightarrow> Some (p\<lparr>prism_x := fst q, prism_y := snd q\<rparr>))
      else old)"

text \<open>The part of \<^verbatim>\<open>placeSmallBoards\<close> that finds and rotates the module of one quadrant.\<close>

definition sourceGrid :: "boardConfig list \<Rightarrow> smallBoard list \<Rightarrow> position \<times> nat \<Rightarrow> error + grid" where
  "sourceGrid config smallBoards pi =
     (if \<not> snd pi < length config then Inl TypeError
      else
        (case lookupSmallBoard smallBoards (boardId (config ! snd pi)) of
           None \<Rightarrow> Inl SmallBoardNotFound
         | Some sb \<Rightarrow>
             (case calculateRotationForPosition sb (fst pi) of
                Inl e \<Rightarrow> Inl e
              | Inr angle \<Rightarrow> rotateCells sb (faceId (config ! snd pi)) angle)))"

definition boundaryWall :: "int \<times> int \<Rightarrow> side \<Rightarrow> bool" where
  "boundaryWall q t =
     (inRange LARGE_BOARD_SIZE (fst q) (snd q) \<and> isRealOuterBoundary t (fst q) (snd q))"

definition centralWall :: "int \<times> int \<Rightarrow> side \<Rightarrow> bool" where
  "centralWall q t =
     (isInCentralArea (fst q) (snd q) \<or>
      (fst q = 6 \<and> (snd q = 7 \<or> snd q = 8) \<and> t = WRight) \<or>
      (fst q = 9 \<and> (snd q = 7 \<or> snd q = 8) \<and> t = WLeft) \<or>
      (snd q = 6 \<and> (fst q = 7 \<or> fst q = 8) \<and> t = WBottom) \<or>
      (snd q = 9 \<and> (fst q = 7 \<or> fst q = 8) \<and> t = WTop))"

text \<open>The walls and the prism of a cell of the assembled board, from the four rotated modules.\<close>

definition assembledWall :: "grid \<Rightarrow> grid \<Rightarrow> grid \<Rightarrow> grid \<Rightarrow> int \<times> int \<Rightarrow> side \<Rightarrow> bool" where
  "assembledWall rc0 rc1 rc2 rc3 q t =
     (boundaryWall q t \<or> placedWall (0, 0) rc0 q t \<or> placedWall (8, 0) rc1 q t \<or>
      placedWall (0, 8) rc2 q t \<or> placedWall (8, 8) rc3 q t \<or> centralWall q t)"

definition assembledPrism :: "grid \<Rightarrow> grid \<Rightarrow> grid \<Rightarrow> grid \<Rightarrow> int \<times> int \<Rightarrow> prism option" where
  "assembledPrism rc0 rc1 rc2 rc3 q =
     (if isInCentralArea (fst q) (snd q) then None
      else placedPrism (8, 8) rc3 q (placedPrism (0, 8) rc2 q
             (placedPrism (8, 0) rc1 q (placedPrism (0, 0) rc0 q None))))"

definition validAngle :: "nat \<Rightarrow> bool" where
  "validAngle a = (a = 0 \<or> a = 90 \<or> a = 180 \<or> a = 270)"

text \<open>The position and the side that a rotation by \<open>a\<close> brings to a given position and side.\<close>

definition unrotatePoint :: "nat \<Rightarrow> int \<times> int \<Rightarrow> int \<times> int" where
  "unrotatePoint a q =
     (if a = 90 then (snd q, SMALL_BOARD_SIZE - 1 - fst q)
      else if a = 180 then (SMALL_BOARD_SIZE - 1 - fst q, SMALL_BOARD_SIZE - 1 - snd q)
      else if a = 270 then (SMALL_BOARD_SIZE - 1 - snd q, fst q)
      else q)"

definition unrotateSide :: "nat \<Rightarrow> side \<Rightarrow> side" where
  "unrotateSide a t = sides ! ((side_index t + 4 - rotations a) mod 4)"

definition validPrisms :: "grid \<Rightarrow> bool" where
  "validPrisms g = (\<forall>q p. cell_prism (g q) = Some p \<longrightarrow> prism_color p \<noteq> Rainbow)"

definition rotatedPrism :: "nat \<Rightarrow> prism \<Rightarrow> prism" where
  "rotatedPrism a p = (case prism_rotate p a SMALL_BOARD_SIZE of Inr p' \<Rightarrow> p' | Inl e \<Rightarrow> p)"

definition rotatedTarget :: "nat \<Rightarrow> target \<Rightarrow> target" where
  "rotatedTarget a t = (case target_rotate t a SMALL_BOARD_SIZE of Inr t' \<Rightarrow> t' | Inl e \<Rightarrow> t)"

text \<open>A grid as \<^verbatim>\<open>createCells\<close> and \<^verbatim>\<open>rotateCells\<close> build it: every cell knows its place, every prism passed the constructor.\<close>

definition materialised :: "grid \<Rightarrow> bool" where
  "materialised g = (validPrisms g \<and> (\<forall>q. cell_x (g q) = fst q \<and> cell_y (g q) = snd q))"

definition face_tl :: face where
  "face_tl =
     \<lparr>face_id = 0,
      face_walls = [\<lparr>wd_x = 7, wd_y = 2, wd_sides = [WRight]\<rparr>,
                    \<lparr>wd_x = 2, wd_y = 5, wd_sides = [WRight, WBottom]\<rparr>],
      face_prisms = [\<lparr>prism_x = 3, prism_y = 3, prism_dir = Backslash, prism_color = Yellow\<rparr>],
      face_targets = [\<lparr>target_x = 6, target_y = 4, target_shape = Circle,
                       target_color = Rainbow, target_id = ''t0''\<rparr>]\<rparr>"

definition sb_demo :: smallBoard where
  "sb_demo = \<lparr>sb_id = 0, sb_color = Red, sb_originalGap = (7, 7), sb_faces = [face_tl]\<rparr>"

text \<open>The grid of a face and the grid of a rotation, cell by cell.\<close>

definition faceWall :: "face \<Rightarrow> int \<times> int \<Rightarrow> side \<Rightarrow> bool" where
  "faceWall f q t =
     list_ex (\<lambda>wd. list_ex (\<lambda>s.
         (q = (wd_x wd, wd_y wd) \<and> t = s) \<or>
         (q = (wd_x wd + side_dx s, wd_y wd + side_dy s) \<and>
          inRange SMALL_BOARD_SIZE (fst q) (snd q) \<and> t = opposite_side s))
       (wd_sides wd)) (face_walls f)"

definition facePrism :: "face \<Rightarrow> int \<times> int \<Rightarrow> prism option" where
  "facePrism f q = find (\<lambda>p. (prism_x p, prism_y p) = q) (rev (face_prisms f))"

definition faceTarget :: "face \<Rightarrow> int \<times> int \<Rightarrow> target option" where
  "faceTarget f q = find (\<lambda>t. (target_x t, target_y t) = q) (rev (face_targets f))"

definition faceGrid :: "face \<Rightarrow> grid" where
  "faceGrid f =
     (\<lambda>q. \<lparr>cell_x = fst q, cell_y = snd q, walls = faceWall f q,
            cell_prism = facePrism f q, cell_target = faceTarget f q\<rparr>)"

definition rotatedGrid :: "nat \<Rightarrow> grid \<Rightarrow> grid" where
  "rotatedGrid a g =
     (\<lambda>q. \<lparr>cell_x = fst q, cell_y = snd q,
            walls = (\<lambda>t. inRange SMALL_BOARD_SIZE (fst q) (snd q) \<and>
                          hasWall (g (unrotatePoint a q)) (unrotateSide a t)),
            cell_prism =
              (if inRange SMALL_BOARD_SIZE (fst q) (snd q)
               then map_option (rotatedPrism a) (cell_prism (g (unrotatePoint a q))) else None),
            cell_target =
              (if inRange SMALL_BOARD_SIZE (fst q) (snd q)
               then map_option (rotatedTarget a) (cell_target (g (unrotatePoint a q))) else None)\<rparr>)"

text \<open>The face data that \<^verbatim>\<open>createCells\<close> accepts, and the grid of a module rotated by an angle.\<close>

definition faceOK :: "face \<Rightarrow> bool" where
  "faceOK f =
     (list_all (\<lambda>wd. wd_y wd \<ge> 0 \<and> wd_y wd < SMALL_BOARD_SIZE \<and>
                     (wd_sides wd = [] \<or> (wd_x wd \<ge> 0 \<and> wd_x wd < SMALL_BOARD_SIZE)))
        (face_walls f) \<and>
      list_all (\<lambda>p. prism_color p \<noteq> Rainbow \<and> inRange SMALL_BOARD_SIZE (prism_x p) (prism_y p))
        (face_prisms f) \<and>
      list_all (\<lambda>t. inRange SMALL_BOARD_SIZE (target_x t) (target_y t)) (face_targets f))"

definition moduleGrid :: "nat \<Rightarrow> face \<Rightarrow> grid" where
  "moduleGrid a f = (if a = 0 then faceGrid f else rotatedGrid a (faceGrid f))"

text \<open>
  A catalogue of four modules and the configuration that assembles them: the first keeps
  its orientation in the top-left quadrant, the second is turned by 270 degrees into the
  top-right quadrant, the last two keep theirs.
\<close>

definition face_tr :: face where
  "face_tr =
     \<lparr>face_id = 0, face_walls = [\<lparr>wd_x = 1, wd_y = 1, wd_sides = [WTop]\<rparr>],
      face_prisms = [], face_targets = []\<rparr>"

definition face_bl :: face where
  "face_bl =
     \<lparr>face_id = 0, face_walls = [],
      face_prisms =
        [\<lparr>prism_x = 5, prism_y = 2, prism_dir = Backslash, prism_color = Blue\<rparr>,
         \<lparr>prism_x = 5, prism_y = 5, prism_dir = Slash, prism_color = Blue\<rparr>,
         \<lparr>prism_x = 0, prism_y = 5, prism_dir = Backslash, prism_color = Blue\<rparr>],
      face_targets = []\<rparr>"

definition face_br :: face where
  "face_br =
     \<lparr>face_id = 0,
      face_walls = [\<lparr>wd_x = 5, wd_y = 7, wd_sides = [WLeft]\<rparr>,
                    \<lparr>wd_x = 7, wd_y = 6, wd_sides = [WTop]\<rparr>,
                    \<lparr>wd_x = 6, wd_y = 6, wd_sides = [WLeft, WTop]\<rparr>],
      face_prisms = [], face_targets = []\<rparr>"

definition catalogue_demo :: "smallBoard list" where
  "catalogue_demo =
     [sb_demo,
      \<lparr>sb_id = 1, sb_color = Yellow, sb_originalGap = (0, 0), sb_faces = [face_tr]\<rparr>,
      \<lparr>sb_id = 2, sb_color = Blue, sb_originalGap = (7, 0), sb_faces = [face_bl]\<rparr>,
      \<lparr>sb_id = 3, sb_color = Green, sb_originalGap = (0, 0), sb_faces = [face_br]\<rparr>]"

definition config_demo :: "boardConfig list" where
  "config_demo =
     [\<lparr>boardId = 0, faceId = 0\<rparr>, \<lparr>boardId = 1, faceId = 0\<rparr>,
      \<lparr>boardId = 2, faceId = 0\<rparr>, \<lparr>boardId = 3, faceId = 0\<rparr>]"

definition board_demo :: board where
  "board_demo =
     (case init config_demo catalogue_demo of
        Inr b \<Rightarrow> b
      | Inl e \<Rightarrow> \<lparr>board_size = 0, cells = emptyGrid, board_targets = []\<rparr>)"

section \<open>Notions for the move simulation and the search\<close>






text \<open>The tokens of the examples.\<close>

definition red_at :: "int \<Rightarrow> int \<Rightarrow> robot" where
  "red_at x y = \<lparr>robot_color = Red, robot_x = x, robot_y = y\<rparr>"

definition yellow_at :: "int \<Rightarrow> int \<Rightarrow> robot" where
  "yellow_at x y = \<lparr>robot_color = Yellow, robot_x = x, robot_y = y\<rparr>"

definition blue_at :: "int \<Rightarrow> int \<Rightarrow> robot" where
  "blue_at x y = \<lparr>robot_color = Blue, robot_x = x, robot_y = y\<rparr>"

text \<open>
  The occupancy check of the specification: a token other than the moving one, the token
  at index \<open>i\<close>, stands on the next cell.
\<close>

definition blockedBySpec :: "board \<Rightarrow> nat \<Rightarrow> direction \<Rightarrow> robot list \<Rightarrow> int \<Rightarrow> int \<Rightarrow> bool" where
  "blockedBySpec b i d allRobots x y =
     (let nextX = x + delta_dx d; nextY = y + delta_dy d in
      \<not> inRange (board_size b) nextX nextY \<or>
      isInCentralArea nextX nextY \<or>
      hasWallInDirection (getCell b x y) d \<or>
      list_ex (\<lambda>j. j \<noteq> i \<and> robot_x (allRobots ! j) = nextX \<and> robot_y (allRobots ! j) = nextY)
        [0..<length allRobots])"

text \<open>
  The parts of the body of the loops of \<^verbatim>\<open>bfsSearch\<close>, named: the simulated move of a token
  in a direction, the joint state after it (\<^verbatim>\<open>newRobots\<close>), and the test that the robot
  found by the colour of the target robot stands on the target position.
\<close>

definition moveOf :: "board \<Rightarrow> robot list \<Rightarrow> nat \<times> direction \<Rightarrow> moveResult" where
  "moveOf b rs m = simulateMove b (rs ! fst m) (snd m) rs"

definition newRobotsOf :: "board \<Rightarrow> robot list \<Rightarrow> nat \<times> direction \<Rightarrow> robot list" where
  "newRobotsOf b rs m =
     rs[fst m := \<lparr>robot_color = robot_color (rs ! fst m), robot_x = finalX (moveOf b rs m),
                  robot_y = finalY (moveOf b rs m)\<rparr>]"

definition targetAtGoal :: "color \<Rightarrow> int \<times> int \<Rightarrow> robot list \<Rightarrow> bool" where
  "targetAtGoal tc tp rs =
     (case find (\<lambda>r. robot_color r = tc) rs of
        None \<Rightarrow> False
      | Some r \<Rightarrow> robot_x r = fst tp \<and> robot_y r = snd tp)"

definition nextState :: "board \<Rightarrow> state \<Rightarrow> nat \<times> direction \<Rightarrow> state" where
  "nextState b cur m =
     \<lparr>st_robots = newRobotsOf b (st_robots cur) m,
      st_path = st_path cur @ [mkAction (st_robots cur ! fst m) (snd m) (moveOf b (st_robots cur) m)],
      st_steps = st_steps cur + 1\<rparr>"

text \<open>
  What the two nested loops leave after the moves \<open>ms\<close> of the state \<open>cur\<close>, when the
  colour of the target robot is among the robots and the moves name robots of the state.
\<close>

definition movesResult ::
  "board \<Rightarrow> color \<Rightarrow> int \<times> int \<Rightarrow> int \<Rightarrow> state \<Rightarrow> nat \<Rightarrow> (nat \<times> direction) list \<Rightarrow>
   state list \<Rightarrow> (nat \<times> int \<times> int) list list \<Rightarrow> loopExit \<Rightarrow> bool" where
  "movesResult b tc tp el cur n ms q v ex =
     (case ex of
        Throw \<Rightarrow> False
      | Return r \<Rightarrow>
          \<not> st_steps cur + 1 < 2 \<and>
          (\<exists>m\<in>set ms. moved (moveOf b (st_robots cur) m) \<and>
             targetAtGoal tc tp (newRobotsOf b (st_robots cur) m) \<and>
             r = succeeded (st_steps cur + 1) (st_path (nextState b cur m)) n el)
      | Continue q' v' \<Rightarrow>
          (\<exists>new. q' = q @ new \<and>
             set v' = set v \<union> (\<lambda>s. stateToString (st_robots s)) ` set new \<and>
             (\<forall>s\<in>set new. \<exists>m\<in>set ms. s = nextState b cur m \<and>
                moved (moveOf b (st_robots cur) m) \<and>
                \<not> targetAtGoal tc tp (st_robots s) \<and>
                stateToString (st_robots s) \<notin> set v) \<and>
             (\<forall>m\<in>set ms. moved (moveOf b (st_robots cur) m) \<longrightarrow>
                (if targetAtGoal tc tp (newRobotsOf b (st_robots cur) m)
                 then st_steps cur + 1 < 2
                 else stateToString (newRobotsOf b (st_robots cur) m) \<in> set v'))))"

text \<open>The three ways in which \<^verbatim>\<open>bfsSearch\<close> returns.\<close>

definition bfsOutcome :: "int \<Rightarrow> searchResult \<Rightarrow> bool" where
  "bfsOutcome el r =
     ((\<exists>n. r = failedWith NoPathFound n el) \<or>
      (\<exists>n. r = failedWith SearchSpaceTooLarge n el) \<or>
      (\<exists>k p n. 2 \<le> k \<and> r = succeeded k p n el))"

text \<open>A move whose only segment ends on a cell without a prism.\<close>

definition noPrismAfter :: "board \<Rightarrow> robot \<Rightarrow> direction \<Rightarrow> robot list \<Rightarrow> bool" where
  "noPrismAfter b rob d rs =
     (case moveInDirection b (robot_x rob) (robot_y rob) d rs of
        (mv, x', y') \<Rightarrow>
          (case getCell b x' y' of None \<Rightarrow> True | Some c \<Rightarrow> cell_prism c = None))"

definition plainMove :: "board \<Rightarrow> robot \<Rightarrow> direction \<Rightarrow> robot list \<Rightarrow> moveResult" where
  "plainMove b rob d rs =
     (case moveInDirection b (robot_x rob) (robot_y rob) d rs of
        (mv, x', y') \<Rightarrow>
          \<lparr>moved = (x' \<noteq> robot_x rob \<or> y' \<noteq> robot_y rob), finalX = x', finalY = y',
           segments = (if mv then [\<lparr>seg_from = (robot_x rob, robot_y rob, d), seg_to = (x', y'),
                                     seg_direction = d\<rparr>] else [])\<rparr>)"

text \<open>
  The reading of the specification: a sequence of actions, each naming a token and a
  direction, is run from a joint state; an action that displaces no token is not valid and
  the run has no result. A solution has at least two actions and leaves the target token
  on the goal cell.
\<close>

fun runActions :: "board \<Rightarrow> robot list \<Rightarrow> (nat \<times> direction) list \<Rightarrow> robot list option" where
  "runActions b rs [] = Some rs"
| "runActions b rs (m # ms) =
     (if fst m < length rs \<and> moved (moveOf b rs m) then runActions b (newRobotsOf b rs m) ms
      else None)"

definition isSolution :: "board \<Rightarrow> robot list \<Rightarrow> color \<Rightarrow> int \<times> int \<Rightarrow> (nat \<times> direction) list \<Rightarrow> bool" where
  "isSolution b rs tc tp ms =
     (2 \<le> length ms \<and>
      (case runActions b rs ms of None \<Rightarrow> False | Some rs' \<Rightarrow> targetAtGoal tc tp rs'))"

text \<open>
  A run of the search: actions applied from a joint state, each displacing its token and
  none leaving the target robot on the target position. These are the paths along which
  \<^verbatim>\<open>bfsSearch\<close> puts states into its queue.
\<close>

fun searchRun ::
  "board \<Rightarrow> color \<Rightarrow> int \<times> int \<Rightarrow> robot list \<Rightarrow> (nat \<times> direction) list \<Rightarrow> robot list option" where
  "searchRun b tc tp rs [] = Some rs"
| "searchRun b tc tp rs (m # ms) =
     (if fst m < length rs \<and> moved (moveOf b rs m) \<and> \<not> targetAtGoal tc tp (newRobotsOf b rs m)
      then searchRun b tc tp (newRobotsOf b rs m) ms else None)"

definition reach :: "board \<Rightarrow> color \<Rightarrow> int \<times> int \<Rightarrow> robot list \<Rightarrow> nat \<Rightarrow> robot list \<Rightarrow> bool" where
  "reach b tc tp rs0 n rs = (\<exists>ms. length ms = n \<and> searchRun b tc tp rs0 ms = Some rs)"

text \<open>
  A joint state is expanded when each of its moves that displaces a token leads to a state
  whose key is in the visited set, or leaves the target robot on the target position from
  the initial state (the landing that the two-step rule discards).
\<close>

definition expanded ::
  "board \<Rightarrow> color \<Rightarrow> int \<times> int \<Rightarrow> robot list \<Rightarrow> (nat \<times> int \<times> int) list list \<Rightarrow> robot list \<Rightarrow> bool" where
  "expanded b tc tp rs0 v rs =
     (\<forall>m. fst m < length rs \<longrightarrow> moved (moveOf b rs m) \<longrightarrow>
        (if targetAtGoal tc tp (newRobotsOf b rs m) then rs = rs0
         else stateToString (newRobotsOf b rs m) \<in> set v))"

text \<open>
  The invariant of the loop of \<^verbatim>\<open>bfsSearch\<close>, with \<open>d\<close> the number of steps of the head of
  the queue: the queue holds states at their least number of steps, in ascending order and
  at most one step beyond the head; every state of a run of at most \<open>d\<close> actions is
  visited; and a visited state is in the queue or expanded.
\<close>

definition bfsInv ::
  "board \<Rightarrow> color \<Rightarrow> int \<times> int \<Rightarrow> robot list \<Rightarrow> state list \<Rightarrow> (nat \<times> int \<times> int) list list \<Rightarrow> bool" where
  "bfsInv b tc tp rs0 q v =
     (q \<noteq> [] \<longrightarrow>
       (\<forall>s\<in>set q. reach b tc tp rs0 (st_steps s) (st_robots s) \<and>
          (\<forall>n. reach b tc tp rs0 n (st_robots s) \<longrightarrow> st_steps s \<le> n) \<and>
          st_steps s \<le> st_steps (hd q) + 1) \<and>
       sorted (map st_steps q) \<and>
       (\<forall>n rs. n \<le> st_steps (hd q) \<longrightarrow> reach b tc tp rs0 n rs \<longrightarrow> stateToString rs \<in> set v) \<and>
       (\<forall>rs. map robot_color rs = map robot_color rs0 \<longrightarrow> stateToString rs \<in> set v \<longrightarrow>
          (\<exists>s\<in>set q. st_robots s = rs) \<or> expanded b tc tp rs0 v rs))"

text \<open>
  The result of an accepted landing: the state that is expanded was reached by a run of the
  search and is not the initial state, and no run of the search to another state than the
  initial one, followed by a landing on the target position, is shorter.
\<close>

definition leastLanding :: "board \<Rightarrow> color \<Rightarrow> int \<times> int \<Rightarrow> robot list \<Rightarrow> nat \<Rightarrow> bool" where
  "leastLanding b tc tp rs0 k =
     ((\<exists>ms rs m. length ms + 1 = k \<and> searchRun b tc tp rs0 ms = Some rs \<and> rs \<noteq> rs0 \<and>
         fst m < length rs \<and> moved (moveOf b rs m) \<and> targetAtGoal tc tp (newRobotsOf b rs m)) \<and>
      (\<forall>ms rs m. searchRun b tc tp rs0 ms = Some rs \<and> rs \<noteq> rs0 \<and>
         fst m < length rs \<and> moved (moveOf b rs m) \<and> targetAtGoal tc tp (newRobotsOf b rs m) \<longrightarrow>
         k \<le> length ms + 1))"

section \<open>Refraction table\<close>

text \<open>
  C5. For every refractor and incoming direction, \<^verbatim>\<open>refract\<close> returns the direction
  unchanged when the token's colour is the refractor's; otherwise a backslash refractor
  exchanges right with down and left with up, and a slash refractor exchanges right with
  up and left with down.
\<close>

theorem refract_table:
  "(robotColor = prism_color p \<longrightarrow> refract p d robotColor = d) \<and>
   (robotColor \<noteq> prism_color p \<and> prism_dir p = Backslash \<longrightarrow>
      refract p DRight robotColor = Down \<and> refract p Down robotColor = DRight \<and>
      refract p DLeft robotColor = Up \<and> refract p Up robotColor = DLeft) \<and>
   (robotColor \<noteq> prism_color p \<and> prism_dir p = Slash \<longrightarrow>
      refract p DRight robotColor = Up \<and> refract p Up robotColor = DRight \<and>
      refract p DLeft robotColor = Down \<and> refract p Down robotColor = DLeft)"
  by (simp add: refract_def calculateRefraction_def)

theorem refract_table_witness:
  "refract \<lparr>prism_x = 3, prism_y = 3, prism_dir = Backslash, prism_color = Yellow\<rparr> DRight Yellow = DRight \<and>
   refract \<lparr>prism_x = 3, prism_y = 3, prism_dir = Backslash, prism_color = Yellow\<rparr> DRight Red = Down \<and>
   refract \<lparr>prism_x = 3, prism_y = 3, prism_dir = Slash, prism_color = Yellow\<rparr> DLeft Red = Down"
  using refract_table [of Yellow "\<lparr>prism_x = 3, prism_y = 3, prism_dir = Backslash, prism_color = Yellow\<rparr>" DRight]
    refract_table [of Red "\<lparr>prism_x = 3, prism_y = 3, prism_dir = Backslash, prism_color = Yellow\<rparr>" DRight]
    refract_table [of Red "\<lparr>prism_x = 3, prism_y = 3, prism_dir = Slash, prism_color = Yellow\<rparr>" DLeft]
  by simp

section \<open>Grids: what the loops add\<close>

lemma set_coords: "set (coords n) = {(x, y). 0 \<le> x \<and> x < n \<and> 0 \<le> y \<and> y < n}"
  by (auto simp: coords_def)

lemma distinct_coords: "distinct (coords n)"
  unfolding coords_def
  by (rule distinct_concat) (auto simp: distinct_map inj_on_def)

lemma walls_setWallAt: "walls (setWallAt g p s q) t = (walls (g q) t \<or> (q = p \<and> t = s))"
  by (simp add: setWallAt_def setWall_def)

lemma content_setWallAt:
  "cell_prism (setWallAt g p s q) = cell_prism (g q)"
  "cell_target (setWallAt g p s q) = cell_target (g q)"
  "cell_x (setWallAt g p s q) = cell_x (g q)"
  "cell_y (setWallAt g p s q) = cell_y (g q)"
  by (simp_all add: setWallAt_def setWall_def)

lemma setPrismAt_simps:
  "walls (setPrismAt g p pr q) = walls (g q)"
  "cell_prism (setPrismAt g p pr q) = (if q = p then Some pr else cell_prism (g q))"
  "cell_target (setPrismAt g p pr q) = cell_target (g q)"
  "cell_x (setPrismAt g p pr q) = cell_x (g q)"
  "cell_y (setPrismAt g p pr q) = cell_y (g q)"
  by (simp_all add: setPrismAt_def setPrism_def)

lemma setTargetAt_simps:
  "walls (setTargetAt g p tg q) = walls (g q)"
  "cell_prism (setTargetAt g p tg q) = cell_prism (g q)"
  "cell_target (setTargetAt g p tg q) = (if q = p then Some tg else cell_target (g q))"
  "cell_x (setTargetAt g p tg q) = cell_x (g q)"
  "cell_y (setTargetAt g p tg q) = cell_y (g q)"
  by (simp_all add: setTargetAt_def setTarget_def)

lemma emptyGrid_simps:
  "walls (emptyGrid q) t = False"
  "cell_prism (emptyGrid q) = None"
  "cell_target (emptyGrid q) = None"
  "cell_x (emptyGrid q) = fst q"
  "cell_y (emptyGrid q) = snd q"
  by (simp_all add: emptyGrid_def newCell_def split: prod.splits)

text \<open>A loop whose passes only add walls adds the union of what the passes add.\<close>

lemma fold_adds_walls:
  assumes "\<And>a g. walls (f a g q) t = (walls (g q) t \<or> S a)"
  shows "walls (fold f xs g q) t = (walls (g q) t \<or> (\<exists>a\<in>set xs. S a))"
  using assms by (induction xs arbitrary: g) auto

lemma fold_keeps:
  assumes "\<And>a g. P (f a g) = P g"
  shows "P (fold f xs g) = P g"
  using assms by (induction xs arbitrary: g) auto

lemma foldE_adds_walls:
  assumes "\<And>a g g'. f a g = Inr g' \<Longrightarrow> walls (g' q) t = (walls (g q) t \<or> S a)"
    and "foldE f xs g = Inr g'"
  shows "walls (g' q) t = (walls (g q) t \<or> (\<exists>a\<in>set xs. S a))"
  using assms(2)
proof (induction xs arbitrary: g)
  case Nil
  then show ?case by simp
next
  case (Cons a xs)
  then obtain g1 where g1: "f a g = Inr g1" and rest: "foldE f xs g1 = Inr g'"
    by (auto split: sum.splits)
  from Cons.IH [OF rest] assms(1) [OF g1] show ?case by auto
qed

lemma foldE_keeps:
  assumes "\<And>a g g'. f a g = Inr g' \<Longrightarrow> P g' = P g"
    and "foldE f xs g = Inr g'"
  shows "P g' = P g"
  using assms(2)
proof (induction xs arbitrary: g)
  case Nil
  then show ?case by simp
next
  case (Cons a xs)
  then obtain g1 where g1: "f a g = Inr g1" and rest: "foldE f xs g1 = Inr g'"
    by (auto split: sum.splits)
  from Cons.IH [OF rest] assms(1) [OF g1] show ?case by simp
qed

section \<open>Board: what the assembly leaves in a cell\<close>

lemma walls_createEmptyCells:
  "walls (createEmptyCells (x, y)) t =
     (0 \<le> x \<and> x \<le> 15 \<and> 0 \<le> y \<and> y \<le> 15 \<and> isRealOuterBoundary t x y)"
proof -
  have "walls (createEmptyCells (x, y)) t =
     (walls (emptyGrid (x, y)) t \<or> (\<exists>i\<in>set [0..LARGE_BOARD_SIZE - 1].
        ((x, y) = (i, 0) \<and> t = WTop) \<or> ((x, y) = (i, LARGE_BOARD_SIZE - 1) \<and> t = WBottom) \<or>
        ((x, y) = (0, i) \<and> t = WLeft) \<or> ((x, y) = (LARGE_BOARD_SIZE - 1, i) \<and> t = WRight)))"
    unfolding createEmptyCells_def
    by (rule fold_adds_walls) (auto simp: walls_setWallAt)
  then show ?thesis
    by (cases t) (auto simp: emptyGrid_simps LARGE_BOARD_SIZE_def isRealOuterBoundary_def)
qed

lemma content_createEmptyCells:
  "cell_prism (createEmptyCells q) = None"
  "cell_target (createEmptyCells q) = None"
proof -
  have "cell_prism (createEmptyCells q) = cell_prism (emptyGrid q)"
    unfolding createEmptyCells_def
    by (rule fold_keeps [where P = "\<lambda>g. cell_prism (g q)"]) (simp add: content_setWallAt)
  then show "cell_prism (createEmptyCells q) = None" by (simp add: emptyGrid_simps)
  have "cell_target (createEmptyCells q) = cell_target (emptyGrid q)"
    unfolding createEmptyCells_def
    by (rule fold_keeps [where P = "\<lambda>g. cell_target (g q)"]) (simp add: content_setWallAt)
  then show "cell_target (createEmptyCells q) = None" by (simp add: emptyGrid_simps)
qed

lemma walls_copyWall:
  "walls (copyWall X Y s g q) t = (walls (g q) t \<or> wallEffect X Y s q t)"
  by (auto simp: copyWall_def wallEffect_def Let_def walls_setWallAt inRange_def)

lemma content_copyWall:
  "cell_prism (copyWall X Y s g q) = cell_prism (g q)"
  "cell_target (copyWall X Y s g q) = cell_target (g q)"
  by (simp_all add: copyWall_def Let_def content_setWallAt)

lemma set_sides: "set sides = UNIV"
proof -
  have "s \<in> set sides" for s by (cases s) (simp_all add: sides_def)
  then show ?thesis by auto
qed

lemma prism_clone_same: "prism_clone p = Inr p' \<Longrightarrow> p' = p"
  by (auto simp: prism_clone_def newPrism_def split: if_splits)

lemma walls_copyCell:
  assumes "copyCell off rc xy g = Inr g'"
  shows "walls (g' q) t =
    (walls (g q) t \<or> (\<exists>s. hasWall (rc xy) s \<and> wallEffect (fst off + fst xy) (snd off + snd xy) s q t))"
proof -
  define g1 where "g1 = fold (\<lambda>s g'. if hasWall (rc xy) s
      then copyWall (fst off + fst xy) (snd off + snd xy) s g' else g') sides g"
  have "walls (g1 q) t = (walls (g q) t \<or>
      (\<exists>s\<in>set sides. hasWall (rc xy) s \<and> wallEffect (fst off + fst xy) (snd off + snd xy) s q t))"
    unfolding g1_def by (rule fold_adds_walls) (simp add: walls_copyWall)
  then have g1: "walls (g1 q) t = (walls (g q) t \<or>
      (\<exists>s. hasWall (rc xy) s \<and> wallEffect (fst off + fst xy) (snd off + snd xy) s q t))"
    by (simp add: set_sides)
  from assms have "walls (g' q) = walls (g1 q)"
    unfolding copyCell_def Let_def g1_def [symmetric]
    by (auto split: option.splits sum.splits simp: setPrismAt_simps setTargetAt_simps)
  with g1 show ?thesis by simp
qed

lemma prism_copyCell:
  assumes "copyCell off rc xy g = Inr g'"
  shows "cell_prism (g' q) =
    (if q = (fst off + fst xy, snd off + snd xy) then
       (case cell_prism (rc xy) of
          None \<Rightarrow> cell_prism (g q)
        | Some p \<Rightarrow> Some (p\<lparr>prism_x := fst q, prism_y := snd q\<rparr>))
     else cell_prism (g q))"
proof -
  define g1 where "g1 = fold (\<lambda>s g'. if hasWall (rc xy) s
      then copyWall (fst off + fst xy) (snd off + snd xy) s g' else g') sides g"
  have g1: "cell_prism (g1 q') = cell_prism (g q')" for q'
    unfolding g1_def
    by (rule fold_keeps [where P = "\<lambda>g. cell_prism (g q')"]) (simp add: content_copyWall)
  from assms show ?thesis
    unfolding copyCell_def Let_def g1_def [symmetric]
    by (auto split: option.splits sum.splits
        simp: setPrismAt_simps setTargetAt_simps g1 [symmetric] dest: prism_clone_same)
qed

lemma walls_placeQuadrant_ex:
  assumes "foldE (copyCell off rc) xs g = Inr g'"
  shows "walls (g' q) t =
    (walls (g q) t \<or> (\<exists>xy\<in>set xs. \<exists>s. hasWall (rc xy) s \<and>
        wallEffect (fst off + fst xy) (snd off + snd xy) s q t))"
  by (rule foldE_adds_walls [OF _ assms]) (rule walls_copyCell)

lemma opposite_side_involution: "opposite_side (opposite_side s) = s"
  by (cases s) simp_all

lemma side_dx_opposite: "side_dx (opposite_side s) = - side_dx s"
  by (cases s) simp_all

lemma side_dy_opposite: "side_dy (opposite_side s) = - side_dy s"
  by (cases s) simp_all

lemma placedWall_iff:
  "(\<exists>xy\<in>set (coords SMALL_BOARD_SIZE). \<exists>s. hasWall (rc xy) s \<and>
        wallEffect (fst off + fst xy) (snd off + snd xy) s q t) = placedWall off rc q t"
  (is "?L = ?R")
proof
  assume ?L
  then obtain x y s where xy: "inRange SMALL_BOARD_SIZE x y" and w: "hasWall (rc (x, y)) s"
    and e: "wallEffect (fst off + x) (snd off + y) s q t"
    by (auto simp: set_coords inRange_def)
  from e have no: "\<not> isRealOuterBoundary s (fst off + x) (snd off + y)"
    by (simp add: wallEffect_def)
  from e consider (own) "q = (fst off + x, snd off + y)" "t = s"
    | (mirror) "q = (fst off + x + side_dx s, snd off + y + side_dy s)" "t = opposite_side s"
        "inRange LARGE_BOARD_SIZE (fst off + x + side_dx s) (snd off + y + side_dy s)"
    by (auto simp: wallEffect_def)
  then show ?R
  proof cases
    case own
    with xy w no show ?thesis by (simp add: placedWall_def)
  next
    case mirror
    have nx: "fst q + side_dx t - fst off = x" "snd q + side_dy t - snd off = y"
      and nx': "fst q + side_dx t = fst off + x" "snd q + side_dy t = snd off + y"
      using mirror by (simp_all add: side_dx_opposite side_dy_opposite)
    have ot: "opposite_side t = s"
      using mirror by (simp add: opposite_side_involution)
    have "inRange LARGE_BOARD_SIZE (fst q) (snd q)"
      using mirror by simp
    then show ?thesis
      unfolding placedWall_def Let_def nx nx' ot using xy w no by simp
  qed
next
  assume R: ?R
  then consider (own) "inRange SMALL_BOARD_SIZE (fst q - fst off) (snd q - snd off)"
      "hasWall (rc (fst q - fst off, snd q - snd off)) t"
      "\<not> isRealOuterBoundary t (fst q) (snd q)"
    | (mirror) "inRange SMALL_BOARD_SIZE (fst q + side_dx t - fst off) (snd q + side_dy t - snd off)"
      "hasWall (rc (fst q + side_dx t - fst off, snd q + side_dy t - snd off)) (opposite_side t)"
      "\<not> isRealOuterBoundary (opposite_side t) (fst q + side_dx t) (snd q + side_dy t)"
      "inRange LARGE_BOARD_SIZE (fst q) (snd q)"
    by (auto simp: placedWall_def Let_def)
  then show ?L
  proof cases
    case own
    have "wallEffect (fst off + (fst q - fst off)) (snd off + (snd q - snd off)) t q t"
      using own(3) by (simp add: wallEffect_def)
    moreover have "(fst q - fst off, snd q - snd off) \<in> set (coords SMALL_BOARD_SIZE)"
      using own(1) by (simp add: set_coords inRange_def)
    ultimately show ?thesis using own(2)
      by (intro bexI [where x = "(fst q - fst off, snd q - snd off)"] exI [where x = t]) simp_all
  next
    case mirror
    let ?x = "fst q + side_dx t - fst off" and ?y = "snd q + side_dy t - snd off"
    have "wallEffect (fst off + ?x) (snd off + ?y) (opposite_side t) q t"
      using mirror(3,4)
      by (simp add: wallEffect_def side_dx_opposite side_dy_opposite opposite_side_involution)
    moreover have "(?x, ?y) \<in> set (coords SMALL_BOARD_SIZE)"
      using mirror(1) by (simp add: set_coords inRange_def)
    ultimately show ?thesis using mirror(2)
      by (intro bexI [where x = "(?x, ?y)"] exI [where x = "opposite_side t"]) simp_all
  qed
qed

lemma walls_placeQuadrant:
  assumes "foldE (copyCell off rc) (coords SMALL_BOARD_SIZE) g = Inr g'"
  shows "walls (g' q) t = (walls (g q) t \<or> placedWall off rc q t)"
  using walls_placeQuadrant_ex [OF assms, of q t] by (simp add: placedWall_iff)

lemma prism_placeQuadrant_list:
  assumes "foldE (copyCell off rc) xs g = Inr g'"
  shows "cell_prism (g' q) =
    (if (fst q - fst off, snd q - snd off) \<in> set xs then
       (case cell_prism (rc (fst q - fst off, snd q - snd off)) of
          None \<Rightarrow> cell_prism (g q)
        | Some p \<Rightarrow> Some (p\<lparr>prism_x := fst q, prism_y := snd q\<rparr>))
     else cell_prism (g q))"
  using assms
proof (induction xs arbitrary: g)
  case Nil
  then show ?case by simp
next
  case (Cons a xs)
  then obtain g1 where g1: "copyCell off rc a g = Inr g1" and rest: "foldE (copyCell off rc) xs g1 = Inr g'"
    by (auto split: sum.splits)
  have eq: "(q = (fst off + fst a, snd off + snd a)) = ((fst q - fst off, snd q - snd off) = a)"
    by (cases a; cases q) auto
  show ?case
    unfolding Cons.IH [OF rest] prism_copyCell [OF g1] eq
    by (auto split: option.splits)
qed

lemma prism_placeQuadrant:
  assumes "foldE (copyCell off rc) (coords SMALL_BOARD_SIZE) g = Inr g'"
  shows "cell_prism (g' q) = placedPrism off rc q (cell_prism (g q))"
  unfolding prism_placeQuadrant_list [OF assms] placedPrism_def
  by (simp add: set_coords inRange_def)

lemma placeOne_sourceGrid:
  "placeOne config smallBoards pi g =
     (case sourceGrid config smallBoards pi of
        Inl e \<Rightarrow> Inl e
      | Inr rc \<Rightarrow> foldE (copyCell (offsets (fst pi)) rc) (coords SMALL_BOARD_SIZE) g)"
  by (simp add: placeOne_def sourceGrid_def Let_def split: option.splits sum.splits)

lemma placeOne_cases:
  assumes "placeOne config smallBoards pi g = Inr g'"
  obtains rc where "sourceGrid config smallBoards pi = Inr rc"
    and "foldE (copyCell (offsets (fst pi)) rc) (coords SMALL_BOARD_SIZE) g = Inr g'"
  using assms unfolding placeOne_sourceGrid by (auto split: sum.splits)

lemma placeSmallBoards_cases:
  assumes "placeSmallBoards config smallBoards g = Inr g'"
  obtains rc0 rc1 rc2 rc3 g1 g2 g3 where
    "sourceGrid config smallBoards (TopLeft, 0) = Inr rc0"
    "sourceGrid config smallBoards (TopRight, 1) = Inr rc1"
    "sourceGrid config smallBoards (BottomLeft, 2) = Inr rc2"
    "sourceGrid config smallBoards (BottomRight, 3) = Inr rc3"
    "foldE (copyCell (0, 0) rc0) (coords SMALL_BOARD_SIZE) g = Inr g1"
    "foldE (copyCell (8, 0) rc1) (coords SMALL_BOARD_SIZE) g1 = Inr g2"
    "foldE (copyCell (0, 8) rc2) (coords SMALL_BOARD_SIZE) g2 = Inr g3"
    "foldE (copyCell (8, 8) rc3) (coords SMALL_BOARD_SIZE) g3 = Inr g'"
proof -
  from assms obtain g1 g2 g3 where
    p0: "placeOne config smallBoards (TopLeft, 0) g = Inr g1" and
    p1: "placeOne config smallBoards (TopRight, 1) g1 = Inr g2" and
    p2: "placeOne config smallBoards (BottomLeft, 2) g2 = Inr g3" and
    p3: "placeOne config smallBoards (BottomRight, 3) g3 = Inr g'"
    by (auto simp: placeSmallBoards_def split: sum.splits)
  from p0 p1 p2 p3 that show ?thesis
    by (elim placeOne_cases) simp
qed

lemma upto_7_8: "[7..8] = [7, 8]"
  by (simp add: upto.simps)

lemma walls_setCentralBlockedArea:
  "walls (setCentralBlockedArea g q) t = (walls (g q) t \<or> centralWall q t)"
proof -
  obtain x y where q: "q = (x, y)" by (cases q)
  show ?thesis
    unfolding q
    by (cases t)
      (auto simp: setCentralBlockedArea_def blocked_x_def blocked_y_def upto_7_8 Let_def
        LARGE_BOARD_SIZE_def setWallAt_def sealCell_def clear_def setWall_def
        centralWall_def isInCentralArea_def)
qed

lemma prism_setCentralBlockedArea:
  "cell_prism (setCentralBlockedArea g q) =
     (if isInCentralArea (fst q) (snd q) then None else cell_prism (g q))"
proof -
  obtain x y where q: "q = (x, y)" by (cases q)
  show ?thesis
    unfolding q
    by (auto simp: setCentralBlockedArea_def blocked_x_def blocked_y_def upto_7_8 Let_def
        LARGE_BOARD_SIZE_def setWallAt_def sealCell_def clear_def setWall_def
        isInCentralArea_def)
qed

lemma target_setCentralBlockedArea:
  "cell_target (setCentralBlockedArea g q) =
     (if isInCentralArea (fst q) (snd q) then None else cell_target (g q))"
proof -
  obtain x y where q: "q = (x, y)" by (cases q)
  show ?thesis
    unfolding q
    by (auto simp: setCentralBlockedArea_def blocked_x_def blocked_y_def upto_7_8 Let_def
        LARGE_BOARD_SIZE_def setWallAt_def sealCell_def clear_def setWall_def
        isInCentralArea_def)
qed

lemma init_cases:
  assumes "init config smallBoards = Inr b"
  obtains rc0 rc1 rc2 rc3 where
    "sourceGrid config smallBoards (TopLeft, 0) = Inr rc0"
    "sourceGrid config smallBoards (TopRight, 1) = Inr rc1"
    "sourceGrid config smallBoards (BottomLeft, 2) = Inr rc2"
    "sourceGrid config smallBoards (BottomRight, 3) = Inr rc3"
    "board_size b = LARGE_BOARD_SIZE"
    "\<And>q t. walls (cells b q) t = assembledWall rc0 rc1 rc2 rc3 q t"
    "\<And>q. cell_prism (cells b q) = assembledPrism rc0 rc1 rc2 rc3 q"
proof -
  from assms obtain g where
    place: "placeSmallBoards config smallBoards createEmptyCells = Inr g" and
    b: "b = \<lparr>board_size = LARGE_BOARD_SIZE, cells = setCentralBlockedArea g,
             board_targets = collectTargets (setCentralBlockedArea g)\<rparr>"
    by (auto simp: init_def Let_def split: sum.splits)
  from place obtain rc0 rc1 rc2 rc3 g1 g2 g3 where
    src: "sourceGrid config smallBoards (TopLeft, 0) = Inr rc0"
      "sourceGrid config smallBoards (TopRight, 1) = Inr rc1"
      "sourceGrid config smallBoards (BottomLeft, 2) = Inr rc2"
      "sourceGrid config smallBoards (BottomRight, 3) = Inr rc3" and
    q0: "foldE (copyCell (0, 0) rc0) (coords SMALL_BOARD_SIZE) createEmptyCells = Inr g1" and
    q1: "foldE (copyCell (8, 0) rc1) (coords SMALL_BOARD_SIZE) g1 = Inr g2" and
    q2: "foldE (copyCell (0, 8) rc2) (coords SMALL_BOARD_SIZE) g2 = Inr g3" and
    q3: "foldE (copyCell (8, 8) rc3) (coords SMALL_BOARD_SIZE) g3 = Inr g"
    by (rule placeSmallBoards_cases)
  have w0: "walls (createEmptyCells q) t = boundaryWall q t" for q t
    by (cases q) (auto simp: walls_createEmptyCells boundaryWall_def inRange_def LARGE_BOARD_SIZE_def)
  have w: "walls (cells b q) t = assembledWall rc0 rc1 rc2 rc3 q t" for q t
    unfolding b assembledWall_def
    by (simp add: walls_setCentralBlockedArea walls_placeQuadrant [OF q3]
        walls_placeQuadrant [OF q2] walls_placeQuadrant [OF q1] walls_placeQuadrant [OF q0] w0
        disj_ac)
  have p: "cell_prism (cells b q) = assembledPrism rc0 rc1 rc2 rc3 q" for q
    unfolding b assembledPrism_def
    by (simp add: prism_setCentralBlockedArea prism_placeQuadrant [OF q3]
        prism_placeQuadrant [OF q2] prism_placeQuadrant [OF q1] prism_placeQuadrant [OF q0]
        content_createEmptyCells)
  show ?thesis
    by (rule that [OF src _ w p]) (simp add: b)
qed

lemma init_central_content:
  assumes "init config smallBoards = Inr b" and "isInCentralArea (fst q) (snd q)"
  shows "cell_prism (cells b q) = None \<and> cell_target (cells b q) = None"
proof -
  from assms(1) obtain g where
    "b = \<lparr>board_size = LARGE_BOARD_SIZE, cells = setCentralBlockedArea g,
           board_targets = collectTargets (setCentralBlockedArea g)\<rparr>"
    by (auto simp: init_def Let_def split: sum.splits)
  with assms(2) show ?thesis
    by (simp add: prism_setCentralBlockedArea target_setCentralBlockedArea)
qed

lemma init_closed_form:
  assumes "init config smallBoards = Inr b"
  shows "\<exists>rc0 rc1 rc2 rc3.
    sourceGrid config smallBoards (TopLeft, 0) = Inr rc0 \<and>
    sourceGrid config smallBoards (TopRight, 1) = Inr rc1 \<and>
    sourceGrid config smallBoards (BottomLeft, 2) = Inr rc2 \<and>
    sourceGrid config smallBoards (BottomRight, 3) = Inr rc3 \<and>
    board_size b = LARGE_BOARD_SIZE \<and>
    (\<forall>q t. walls (cells b q) t = assembledWall rc0 rc1 rc2 rc3 q t) \<and>
    (\<forall>q. cell_prism (cells b q) = assembledPrism rc0 rc1 rc2 rc3 q)"
  by (rule init_cases [OF assms]) (intro exI conjI allI; assumption)

lemma centralWall_symmetric:
  "centralWall (x, y) s = centralWall (x + side_dx s, y + side_dy s) (opposite_side s)"
  by (cases s) (auto simp: centralWall_def isInCentralArea_def blocked_x_def blocked_y_def)

lemma boundaryWall_no_neighbour:
  assumes "inRange LARGE_BOARD_SIZE (x + side_dx s) (y + side_dy s)"
  shows "\<not> boundaryWall (x, y) s"
  using assms
  by (cases s) (auto simp: boundaryWall_def isRealOuterBoundary_def inRange_def LARGE_BOARD_SIZE_def)

lemma placedWall_symmetric:
  assumes "inRange LARGE_BOARD_SIZE x y" "inRange LARGE_BOARD_SIZE (x + side_dx s) (y + side_dy s)"
  shows "placedWall off rc (x, y) s = placedWall off rc (x + side_dx s, y + side_dy s) (opposite_side s)"
proof -
  have ret: "x + side_dx s + side_dx (opposite_side s) = x"
    "y + side_dy s + side_dy (opposite_side s) = y"
    by (simp_all add: side_dx_opposite side_dy_opposite)
  show ?thesis
    unfolding placedWall_def Let_def fst_conv snd_conv ret opposite_side_involution
    using assms by auto
qed

lemma assembledWall_symmetric:
  assumes "inRange LARGE_BOARD_SIZE x y" "inRange LARGE_BOARD_SIZE (x + side_dx s) (y + side_dy s)"
  shows "assembledWall rc0 rc1 rc2 rc3 (x, y) s =
    assembledWall rc0 rc1 rc2 rc3 (x + side_dx s, y + side_dy s) (opposite_side s)"
proof -
  have "inRange LARGE_BOARD_SIZE (x + side_dx s + side_dx (opposite_side s))
      (y + side_dy s + side_dy (opposite_side s))"
    using assms(1) by (simp add: side_dx_opposite side_dy_opposite)
  then have "\<not> boundaryWall (x + side_dx s, y + side_dy s) (opposite_side s)"
    by (rule boundaryWall_no_neighbour)
  moreover have "\<not> boundaryWall (x, y) s"
    using assms(2) by (rule boundaryWall_no_neighbour)
  ultimately show ?thesis
    unfolding assembledWall_def
    using placedWall_symmetric [OF assms] centralWall_symmetric [of x y s] by simp
qed

text \<open>
  C6. On every successfully constructed board each of the four cells of the central dead
  zone (x and y in 7, 8) has all four wall flags set and holds neither a prism nor a
  target, and each cell immediately outside the dead zone has the wall flag facing it set.
\<close>

theorem central_area_sealed:
  assumes "init config smallBoards = Inr b"
  shows "(\<forall>x \<in> {7, 8}. \<forall>y \<in> {7, 8}.
            (\<forall>s. hasWall (cells b (x, y)) s) \<and>
            \<not> hasPrism (cells b (x, y)) \<and> \<not> hasTarget (cells b (x, y))) \<and>
         (\<forall>y \<in> {7, 8}. hasWall (cells b (6, y)) WRight \<and> hasWall (cells b (9, y)) WLeft) \<and>
         (\<forall>x \<in> {7, 8}. hasWall (cells b (x, 6)) WBottom \<and> hasWall (cells b (x, 9)) WTop)"
proof -
  from init_closed_form [OF assms] obtain rc0 rc1 rc2 rc3 where
    w: "\<And>q t. walls (cells b q) t = assembledWall rc0 rc1 rc2 rc3 q t"
    by blast
  have central: "centralWall q t \<Longrightarrow> hasWall (cells b q) t" for q t
    by (simp add: hasWall_def w assembledWall_def)
  have inside: "isInCentralArea x y \<Longrightarrow>
      (\<forall>s. hasWall (cells b (x, y)) s) \<and> \<not> hasPrism (cells b (x, y)) \<and> \<not> hasTarget (cells b (x, y))"
    for x y
    using init_central_content [OF assms, of "(x, y)"] central [of "(x, y)"]
    by (simp add: centralWall_def hasPrism_def hasTarget_def)
  have "\<forall>x \<in> {7, 8}. \<forall>y \<in> {7, 8}.
            (\<forall>s. hasWall (cells b (x, y)) s) \<and>
            \<not> hasPrism (cells b (x, y)) \<and> \<not> hasTarget (cells b (x, y))"
    using inside by (simp add: isInCentralArea_def blocked_x_def blocked_y_def)
  moreover have "\<forall>y \<in> {7, 8}. hasWall (cells b (6, y)) WRight \<and> hasWall (cells b (9, y)) WLeft"
    by (auto intro!: central simp: centralWall_def)
  moreover have "\<forall>x \<in> {7, 8}. hasWall (cells b (x, 6)) WBottom \<and> hasWall (cells b (x, 9)) WTop"
    by (auto intro!: central simp: centralWall_def)
  ultimately show ?thesis by blast
qed

text \<open>
  C7. On every successfully constructed board, for every cell and every side on which it
  has a neighbour on the board, the wall flag of the cell on that side equals the wall flag
  of the neighbour on the opposite side.
\<close>

theorem wall_symmetry:
  assumes "init config smallBoards = Inr b"
    and "getCell b x y = Some c"
    and "getCell b (x + side_dx s) (y + side_dy s) = Some c'"
  shows "hasWall c s = hasWall c' (opposite_side s)"
proof -
  from init_closed_form [OF assms(1)] obtain rc0 rc1 rc2 rc3 where
    sz: "board_size b = LARGE_BOARD_SIZE" and
    w: "\<And>q t. walls (cells b q) t = assembledWall rc0 rc1 rc2 rc3 q t"
    by blast
  from assms(2) sz have c: "c = cells b (x, y)" and r: "inRange LARGE_BOARD_SIZE x y"
    by (auto simp: getCell_def inRange_def split: if_splits)
  from assms(3) sz have c': "c' = cells b (x + side_dx s, y + side_dy s)"
    and r': "inRange LARGE_BOARD_SIZE (x + side_dx s) (y + side_dy s)"
    by (auto simp: getCell_def inRange_def split: if_splits)
  show ?thesis
    unfolding c c' hasWall_def using assembledWall_symmetric [OF r r'] by (simp add: w)
qed

section \<open>SmallBoard: rotation of a module\<close>

lemma rotatePoint_valid:
  assumes "validAngle a"
  shows "\<exists>p. rotatePoint x y a sz = Inr p"
  using assms by (auto simp: validAngle_def rotatePoint_def Let_def)

lemma rotatePoint_unrotate:
  assumes "validAngle a"
  shows "(rotatePoint x y a SMALL_BOARD_SIZE = Inr q) = (unrotatePoint a q = (x, y))"
  using assms by (cases q) (auto simp: validAngle_def rotatePoint_def unrotatePoint_def Let_def)

lemma unrotatePoint_inRange:
  assumes "validAngle a"
  shows "inRange SMALL_BOARD_SIZE (fst (unrotatePoint a q)) (snd (unrotatePoint a q)) =
         inRange SMALL_BOARD_SIZE (fst q) (snd q)"
  using assms by (auto simp: validAngle_def unrotatePoint_def inRange_def SMALL_BOARD_SIZE_def)

lemma rotations_valid:
  "rotations 0 = 0" "rotations 90 = 1" "rotations 180 = 2" "rotations 270 = 3"
  by (simp_all add: rotations_def)

lemma rotateWallSide_unrotate:
  assumes "validAngle a"
  shows "(rotateWallSide s a = t) = (unrotateSide a t = s)"
  using assms
  by (cases s; cases t)
    (auto simp: validAngle_def rotateWallSide_def unrotateSide_def rotations_valid sides_def)

lemma newPrism_ok: "c \<noteq> Rainbow \<Longrightarrow> newPrism x y d c = Inr \<lparr>prism_x = x, prism_y = y, prism_dir = d, prism_color = c\<rparr>"
  by (cases c) (simp_all add: newPrism_def)

lemma newPrism_valid: "newPrism x y d c = Inr p \<Longrightarrow> prism_color p \<noteq> Rainbow"
  by (auto simp: newPrism_def split: if_splits)

lemma walls_rotateCell:
  assumes "rotateCell a g xy r = Inr r'"
  shows "walls (r' q) t =
    (walls (r q) t \<or> (\<exists>s. hasWall (g xy) s \<and>
        rotatePoint (fst xy) (snd xy) a SMALL_BOARD_SIZE = Inr q \<and> rotateWallSide s a = t))"
proof -
  from assms obtain newPos where np: "rotatePoint (fst xy) (snd xy) a SMALL_BOARD_SIZE = Inr newPos"
    by (auto simp: rotateCell_def Let_def split: sum.splits)
  define r1 where "r1 = fold (\<lambda>s g'. if hasWall (g xy) s
      then setWallAt g' newPos (rotateWallSide s a) else g') sides r"
  have "walls (r1 q) t = (walls (r q) t \<or>
      (\<exists>s\<in>set sides. hasWall (g xy) s \<and> q = newPos \<and> t = rotateWallSide s a))"
    unfolding r1_def by (rule fold_adds_walls) (auto simp: walls_setWallAt)
  then have r1: "walls (r1 q) t = (walls (r q) t \<or>
      (\<exists>s. hasWall (g xy) s \<and> q = newPos \<and> t = rotateWallSide s a))"
    by (simp add: set_sides)
  from assms have "walls (r' q) = walls (r1 q)"
    unfolding rotateCell_def Let_def np sum.case r1_def [symmetric]
    by (auto split: option.splits sum.splits simp: setPrismAt_simps setTargetAt_simps)
  with r1 np show ?thesis by auto
qed

lemma walls_rotateGrid:
  assumes "rotateGrid a g = Inr g'" and "validAngle a"
  shows "walls (g' q) t =
    (inRange SMALL_BOARD_SIZE (fst q) (snd q) \<and> hasWall (g (unrotatePoint a q)) (unrotateSide a t))"
proof -
  have "walls (g' q) t = (walls (emptyGrid q) t \<or> (\<exists>xy\<in>set (coords SMALL_BOARD_SIZE).
      \<exists>s. hasWall (g xy) s \<and>
        rotatePoint (fst xy) (snd xy) a SMALL_BOARD_SIZE = Inr q \<and> rotateWallSide s a = t))"
    by (rule foldE_adds_walls [OF _ assms(1) [unfolded rotateGrid_def]]) (rule walls_rotateCell)
  also have "\<dots> = (\<exists>xy\<in>set (coords SMALL_BOARD_SIZE). unrotatePoint a q = xy \<and> hasWall (g xy) (unrotateSide a t))"
    by (auto simp: emptyGrid_simps rotatePoint_unrotate [OF assms(2)]
        rotateWallSide_unrotate [OF assms(2)])
  also have "\<dots> = (inRange SMALL_BOARD_SIZE (fst (unrotatePoint a q)) (snd (unrotatePoint a q)) \<and>
      hasWall (g (unrotatePoint a q)) (unrotateSide a t))"
    by (auto simp: set_coords inRange_def)
  finally show ?thesis
    by (simp add: unrotatePoint_inRange [OF assms(2)])
qed

lemma foldE_invariant:
  assumes "\<And>a g g'. f a g = Inr g' \<Longrightarrow> P g \<Longrightarrow> P g'"
    and "foldE f xs g = Inr g'" and "P g"
  shows "P g'"
  using assms(2,3)
proof (induction xs arbitrary: g)
  case Nil
  then show ?case by simp
next
  case (Cons a xs)
  then obtain g1 where g1: "f a g = Inr g1" and rest: "foldE f xs g1 = Inr g'"
    by (auto split: sum.splits)
  from assms(1) [OF g1 Cons.prems(2)] have "P g1" .
  with Cons.IH [OF rest] show ?case .
qed

lemma foldE_succeeds:
  assumes "\<And>a g. a \<in> set xs \<Longrightarrow> P g \<Longrightarrow> \<exists>g'. f a g = Inr g' \<and> P g'" and "P g"
  shows "\<exists>g'. foldE f xs g = Inr g' \<and> P g'"
  using assms
proof (induction xs arbitrary: g)
  case Nil
  then show ?case by simp
next
  case (Cons a xs)
  from Cons.prems(1) [of a g] Cons.prems(2) obtain g1 where g1: "f a g = Inr g1" "P g1"
    by auto
  have "\<exists>g'. foldE f xs g1 = Inr g' \<and> P g'"
    by (rule Cons.IH) (use Cons.prems(1) g1 in auto)
  with g1 show ?case by simp
qed

lemma validPrismsD: "validPrisms g \<Longrightarrow> cell_prism (g q) = Some p \<Longrightarrow> prism_color p \<noteq> Rainbow"
  unfolding validPrisms_def by blast

lemma prism_rotate_ok:
  assumes "validAngle a" "prism_color p \<noteq> Rainbow"
  shows "prism_rotate p a SMALL_BOARD_SIZE = Inr (rotatedPrism a p) \<and>
         prism_color (rotatedPrism a p) = prism_color p"
proof -
  from rotatePoint_valid [OF assms(1)] obtain np where
    np: "rotatePoint (prism_x p) (prism_y p) a SMALL_BOARD_SIZE = Inr np" by blast
  show ?thesis
    by (simp add: rotatedPrism_def prism_rotate_def np newPrism_ok [OF assms(2)])
qed

lemma target_rotate_ok:
  assumes "validAngle a"
  shows "target_rotate t a SMALL_BOARD_SIZE = Inr (rotatedTarget a t)"
proof -
  from rotatePoint_valid [OF assms(1)] obtain np where
    np: "rotatePoint (target_x t) (target_y t) a SMALL_BOARD_SIZE = Inr np" by blast
  show ?thesis
    by (simp add: rotatedTarget_def target_rotate_def np)
qed

lemma rotateCell_ok:
  assumes "validAngle a" "validPrisms g"
  shows "\<exists>r'. rotateCell a g xy r = Inr r'"
proof -
  from rotatePoint_valid [OF assms(1)] obtain np where
    np: "rotatePoint (fst xy) (snd xy) a SMALL_BOARD_SIZE = Inr np" by blast
  have pr: "cell_prism (g xy) = Some p \<Longrightarrow> prism_rotate p a SMALL_BOARD_SIZE = Inr (rotatedPrism a p)" for p
    using prism_rotate_ok [OF assms(1) validPrismsD [OF assms(2)]] by blast
  show ?thesis
    unfolding rotateCell_def Let_def np sum.case
    by (cases "cell_prism (g xy)"; cases "cell_target (g xy)")
      (simp_all add: pr target_rotate_ok [OF assms(1)])
qed

lemma rotateGrid_ok:
  assumes "validAngle a" "validPrisms g"
  shows "\<exists>g'. rotateGrid a g = Inr g'"
proof -
  have "\<exists>g'. foldE (rotateCell a g) (coords SMALL_BOARD_SIZE) emptyGrid = Inr g' \<and> True"
    by (rule foldE_succeeds) (use rotateCell_ok [OF assms] in auto)
  then show ?thesis by (simp add: rotateGrid_def)
qed

lemma content_rotateCell:
  assumes "rotateCell a g xy r = Inr r'" and "validAngle a" and "validPrisms g"
  shows "cell_prism (r' q) =
      (if unrotatePoint a q = xy then
         (case cell_prism (g xy) of None \<Rightarrow> cell_prism (r q) | Some p \<Rightarrow> Some (rotatedPrism a p))
       else cell_prism (r q))"
    and "cell_target (r' q) =
      (if unrotatePoint a q = xy then
         (case cell_target (g xy) of None \<Rightarrow> cell_target (r q) | Some t \<Rightarrow> Some (rotatedTarget a t))
       else cell_target (r q))"
    and "cell_x (r' q) = cell_x (r q)" and "cell_y (r' q) = cell_y (r q)"
proof -
  from rotatePoint_valid [OF assms(2)] obtain np where
    np: "rotatePoint (fst xy) (snd xy) a SMALL_BOARD_SIZE = Inr np" by blast
  then have un: "(unrotatePoint a q = xy) = (q = np)"
    using rotatePoint_unrotate [OF assms(2), of "fst xy" "snd xy" q] by auto
  define r1 where "r1 = fold (\<lambda>s g'. if hasWall (g xy) s
      then setWallAt g' np (rotateWallSide s a) else g') sides r"
  have r1: "cell_prism (r1 q') = cell_prism (r q')" "cell_target (r1 q') = cell_target (r q')"
    "cell_x (r1 q') = cell_x (r q')" "cell_y (r1 q') = cell_y (r q')" for q'
    unfolding r1_def
    by (rule fold_keeps [where P = "\<lambda>g. cell_prism (g q')"], simp add: content_setWallAt,
        rule fold_keeps [where P = "\<lambda>g. cell_target (g q')"], simp add: content_setWallAt,
        rule fold_keeps [where P = "\<lambda>g. cell_x (g q')"], simp add: content_setWallAt,
        rule fold_keeps [where P = "\<lambda>g. cell_y (g q')"], simp add: content_setWallAt)
  have pr: "cell_prism (g xy) = Some p \<Longrightarrow> prism_rotate p a SMALL_BOARD_SIZE = Inr (rotatedPrism a p)" for p
    using prism_rotate_ok [OF assms(2) validPrismsD [OF assms(3)]] by blast
  have r': "r' = (let r2 = (case cell_prism (g xy) of None \<Rightarrow> r1
                            | Some p \<Rightarrow> setPrismAt r1 np (rotatedPrism a p))
                  in case cell_target (g xy) of None \<Rightarrow> r2
                     | Some t \<Rightarrow> setTargetAt r2 np (rotatedTarget a t))"
    using assms(1)
    unfolding rotateCell_def Let_def np sum.case r1_def [symmetric]
    by (cases "cell_prism (g xy)"; cases "cell_target (g xy)")
      (simp_all add: pr target_rotate_ok [OF assms(2)])
  show "cell_prism (r' q) =
      (if unrotatePoint a q = xy then
         (case cell_prism (g xy) of None \<Rightarrow> cell_prism (r q) | Some p \<Rightarrow> Some (rotatedPrism a p))
       else cell_prism (r q))"
    unfolding un r' Let_def
    by (simp add: setPrismAt_simps setTargetAt_simps r1 split: option.splits)
  show "cell_target (r' q) =
      (if unrotatePoint a q = xy then
         (case cell_target (g xy) of None \<Rightarrow> cell_target (r q) | Some t \<Rightarrow> Some (rotatedTarget a t))
       else cell_target (r q))"
    unfolding un r' Let_def
    by (simp add: setPrismAt_simps setTargetAt_simps r1 split: option.splits)
  show "cell_x (r' q) = cell_x (r q)" "cell_y (r' q) = cell_y (r q)"
    unfolding r' Let_def
    by (simp_all add: setPrismAt_simps setTargetAt_simps r1 split: option.splits)
qed

lemma content_rotateCells_list:
  assumes "foldE (rotateCell a g) xs r = Inr r'" and "validAngle a" and "validPrisms g"
  shows "cell_prism (r' q) =
      (if unrotatePoint a q \<in> set xs then
         (case cell_prism (g (unrotatePoint a q)) of
            None \<Rightarrow> cell_prism (r q) | Some p \<Rightarrow> Some (rotatedPrism a p))
       else cell_prism (r q))"
    and "cell_target (r' q) =
      (if unrotatePoint a q \<in> set xs then
         (case cell_target (g (unrotatePoint a q)) of
            None \<Rightarrow> cell_target (r q) | Some t \<Rightarrow> Some (rotatedTarget a t))
       else cell_target (r q))"
    and "cell_x (r' q) = cell_x (r q)" and "cell_y (r' q) = cell_y (r q)"
  using assms(1)
proof (induction xs arbitrary: r)
  case Nil
  {
    case 1 then show ?case by simp
  next
    case 2 then show ?case by simp
  next
    case 3 then show ?case by simp
  next
    case 4 then show ?case by simp
  }
next
  case (Cons xy xs)
  {
    case 1
    then obtain r1 where r1: "rotateCell a g xy r = Inr r1" and rest: "foldE (rotateCell a g) xs r1 = Inr r'"
      by (auto split: sum.splits)
    show ?case
      unfolding Cons.IH(1) [OF rest] content_rotateCell(1) [OF r1 assms(2,3)]
      by (auto split: option.splits)
  next
    case 2
    then obtain r1 where r1: "rotateCell a g xy r = Inr r1" and rest: "foldE (rotateCell a g) xs r1 = Inr r'"
      by (auto split: sum.splits)
    show ?case
      unfolding Cons.IH(2) [OF rest] content_rotateCell(2) [OF r1 assms(2,3)]
      by (auto split: option.splits)
  next
    case 3
    then obtain r1 where r1: "rotateCell a g xy r = Inr r1" and rest: "foldE (rotateCell a g) xs r1 = Inr r'"
      by (auto split: sum.splits)
    show ?case
      unfolding Cons.IH(3) [OF rest] content_rotateCell(3) [OF r1 assms(2,3)] by simp
  next
    case 4
    then obtain r1 where r1: "rotateCell a g xy r = Inr r1" and rest: "foldE (rotateCell a g) xs r1 = Inr r'"
      by (auto split: sum.splits)
    show ?case
      unfolding Cons.IH(4) [OF rest] content_rotateCell(4) [OF r1 assms(2,3)] by simp
  }
qed

lemma content_rotateGrid:
  assumes "rotateGrid a g = Inr g'" and "validAngle a" and "validPrisms g"
  shows "cell_prism (g' q) =
      (if inRange SMALL_BOARD_SIZE (fst q) (snd q)
       then map_option (rotatedPrism a) (cell_prism (g (unrotatePoint a q))) else None)"
    and "cell_target (g' q) =
      (if inRange SMALL_BOARD_SIZE (fst q) (snd q)
       then map_option (rotatedTarget a) (cell_target (g (unrotatePoint a q))) else None)"
    and "cell_x (g' q) = fst q" and "cell_y (g' q) = snd q"
proof -
  note l = content_rotateCells_list [OF assms(1) [unfolded rotateGrid_def] assms(2,3)]
  have mem: "(unrotatePoint a q \<in> set (coords SMALL_BOARD_SIZE)) = inRange SMALL_BOARD_SIZE (fst q) (snd q)"
    using unrotatePoint_inRange [OF assms(2), of q]
    by (cases "unrotatePoint a q") (auto simp: set_coords inRange_def)
  show "cell_prism (g' q) =
      (if inRange SMALL_BOARD_SIZE (fst q) (snd q)
       then map_option (rotatedPrism a) (cell_prism (g (unrotatePoint a q))) else None)"
    unfolding l(1) mem by (simp add: emptyGrid_simps split: option.splits)
  show "cell_target (g' q) =
      (if inRange SMALL_BOARD_SIZE (fst q) (snd q)
       then map_option (rotatedTarget a) (cell_target (g (unrotatePoint a q))) else None)"
    unfolding l(2) mem by (simp add: emptyGrid_simps split: option.splits)
  show "cell_x (g' q) = fst q" "cell_y (g' q) = snd q"
    unfolding l(3,4) by (simp_all add: emptyGrid_simps)
qed

lemma content_syncAdjacentWall:
  "cell_prism (syncAdjacentWall g x y s q) = cell_prism (g q)"
  "cell_target (syncAdjacentWall g x y s q) = cell_target (g q)"
  "cell_x (syncAdjacentWall g x y s q) = cell_x (g q)"
  "cell_y (syncAdjacentWall g x y s q) = cell_y (g q)"
  by (simp_all add: syncAdjacentWall_def Let_def content_setWallAt)

lemma content_addWallData:
  assumes "addWallData wd g = Inr g'"
  shows "cell_prism (g' q) = cell_prism (g q)" "cell_target (g' q) = cell_target (g q)"
    "cell_x (g' q) = cell_x (g q)" "cell_y (g' q) = cell_y (g q)"
proof -
  let ?f = "\<lambda>s g'. syncAdjacentWall (setWallAt g' (wd_x wd, wd_y wd) s) (wd_x wd) (wd_y wd) s"
  from assms have "g' = g \<or> g' = fold ?f (wd_sides wd) g"
    by (auto simp: addWallData_def split: if_splits)
  moreover have "cell_prism (fold ?f (wd_sides wd) g q) = cell_prism (g q)"
    by (rule fold_keeps [where P = "\<lambda>g. cell_prism (g q)"])
      (simp add: content_syncAdjacentWall content_setWallAt)
  moreover have "cell_target (fold ?f (wd_sides wd) g q) = cell_target (g q)"
    by (rule fold_keeps [where P = "\<lambda>g. cell_target (g q)"])
      (simp add: content_syncAdjacentWall content_setWallAt)
  moreover have "cell_x (fold ?f (wd_sides wd) g q) = cell_x (g q)"
    by (rule fold_keeps [where P = "\<lambda>g. cell_x (g q)"])
      (simp add: content_syncAdjacentWall content_setWallAt)
  moreover have "cell_y (fold ?f (wd_sides wd) g q) = cell_y (g q)"
    by (rule fold_keeps [where P = "\<lambda>g. cell_y (g q)"])
      (simp add: content_syncAdjacentWall content_setWallAt)
  ultimately show "cell_prism (g' q) = cell_prism (g q)" "cell_target (g' q) = cell_target (g q)"
    "cell_x (g' q) = cell_x (g q)" "cell_y (g' q) = cell_y (g q)"
    by auto
qed

lemma materialised_addWallData:
  assumes "addWallData wd g = Inr g'" "materialised g"
  shows "materialised g'"
  using assms(2) unfolding materialised_def validPrisms_def
  by (simp add: content_addWallData [OF assms(1)])

lemma materialised_addPrismData:
  assumes "addPrismData pd g = Inr g'" "materialised g"
  shows "materialised g'"
proof -
  from assms(1) obtain p where p: "newPrism (prism_x pd) (prism_y pd) (prism_dir pd) (prism_color pd) = Inr p"
    and g': "g' = setPrismAt g (prism_x p, prism_y p) p"
    by (auto simp: addPrismData_def split: sum.splits if_splits)
  from newPrism_valid [OF p] assms(2) show ?thesis
    unfolding materialised_def validPrisms_def g' by (simp add: setPrismAt_simps)
qed

lemma materialised_addTargetData:
  assumes "addTargetData t g = Inr g'" "materialised g"
  shows "materialised g'"
proof -
  from assms(1) have g': "g' = setTargetAt g (target_x t, target_y t) t"
    by (auto simp: addTargetData_def split: if_splits)
  from assms(2) show ?thesis
    unfolding materialised_def validPrisms_def g' by (simp add: setTargetAt_simps)
qed

lemma materialised_emptyGrid: "materialised emptyGrid"
  by (simp add: materialised_def validPrisms_def emptyGrid_simps)

lemma materialised_createCells:
  assumes "createCells sb fid = Inr g"
  shows "materialised g"
proof -
  from assms obtain f where f: "getFace sb fid = Inr f"
    by (cases "getFace sb fid") (simp_all add: createCells_def)
  from assms obtain g1 where w: "foldE addWallData (face_walls f) emptyGrid = Inr g1"
    by (cases "foldE addWallData (face_walls f) emptyGrid") (simp_all add: createCells_def f)
  from assms obtain g2 where p: "foldE addPrismData (face_prisms f) g1 = Inr g2"
    by (cases "foldE addPrismData (face_prisms f) g1") (simp_all add: createCells_def f w)
  from assms have t: "foldE addTargetData (face_targets f) g2 = Inr g"
    by (simp add: createCells_def f w p)
  have g1: "materialised g1"
    by (rule foldE_invariant [where P = materialised, OF materialised_addWallData w materialised_emptyGrid])
  have g2: "materialised g2"
    by (rule foldE_invariant [where P = materialised, OF materialised_addPrismData p g1])
  show ?thesis
    by (rule foldE_invariant [where P = materialised, OF materialised_addTargetData t g2])
qed

lemma materialised_rotateGrid:
  assumes "rotateGrid a g = Inr g'" and "validAngle a" and "validPrisms g"
  shows "materialised g'"
proof -
  have "prism_color p \<noteq> Rainbow" if "cell_prism (g' q) = Some p" for q p
  proof -
    from that obtain p0 where p0: "cell_prism (g (unrotatePoint a q)) = Some p0" and "p = rotatedPrism a p0"
      unfolding content_rotateGrid(1) [OF assms] by (auto split: if_splits)
    with prism_rotate_ok [OF assms(2) validPrismsD [OF assms(3) p0]] show ?thesis
      using validPrismsD [OF assms(3) p0] by simp
  qed
  then show ?thesis
    unfolding materialised_def validPrisms_def
    by (auto simp: content_rotateGrid(3,4) [OF assms])
qed

lemma unrotatePoint_round_trip:
  assumes "a = 90 \<or> a = 180 \<or> a = 270"
  shows "unrotatePoint a (unrotatePoint (360 - a) q) = q"
  using assms by (cases q) (auto simp: unrotatePoint_def)

lemma unrotateSide_round_trip:
  assumes "a = 90 \<or> a = 180 \<or> a = 270"
  shows "unrotateSide a (unrotateSide (360 - a) t) = t"
  using assms by (cases t) (auto simp: unrotateSide_def rotations_valid sides_def)

lemma rotatedPrism_round_trip:
  assumes "a = 90 \<or> a = 180 \<or> a = 270" and "prism_color p \<noteq> Rainbow"
  shows "rotatedPrism (360 - a) (rotatedPrism a p) = p"
  using assms
  by (cases "prism_dir p")
    (auto simp: rotatedPrism_def prism_rotate_def rotatePoint_def Let_def newPrism_ok
      rotatePrismDirection_def rotations_valid)

lemma rotatedTarget_round_trip:
  assumes "a = 90 \<or> a = 180 \<or> a = 270"
  shows "rotatedTarget (360 - a) (rotatedTarget a t) = t"
  using assms
  by (auto simp: rotatedTarget_def target_rotate_def rotatePoint_def Let_def)

lemma round_trip_cell:
  assumes g: "materialised g" and a: "a = 90 \<or> a = 180 \<or> a = 270"
    and g': "rotateGrid a g = Inr g'" and g'': "rotateGrid (360 - a) g' = Inr g''"
    and q: "inRange SMALL_BOARD_SIZE (fst q) (snd q)"
  shows "g'' q = g q"
proof -
  from a have va: "validAngle a" and va': "validAngle (360 - a)"
    by (auto simp: validAngle_def)
  from a have a': "360 - a = 90 \<or> 360 - a = 180 \<or> 360 - a = 270" and aa: "360 - (360 - a) = a"
    by auto
  from g have vg: "validPrisms g" and xy: "cell_x (g q) = fst q" "cell_y (g q) = snd q"
    unfolding materialised_def by blast+
  from materialised_rotateGrid [OF g' va vg] have vg': "validPrisms g'"
    by (simp add: materialised_def)
  have q': "inRange SMALL_BOARD_SIZE (fst (unrotatePoint (360 - a) q)) (snd (unrotatePoint (360 - a) q))"
    using q by (simp add: unrotatePoint_inRange [OF va'])
  have w: "walls (g'' q) = walls (g q)"
  proof
    fix t
    show "walls (g'' q) t = walls (g q) t"
      unfolding walls_rotateGrid [OF g'' va'] hasWall_def walls_rotateGrid [OF g' va]
      using q q'
      by (simp add: unrotatePoint_round_trip [OF a] unrotateSide_round_trip [OF a] hasWall_def)
  qed
  have p: "cell_prism (g'' q) = cell_prism (g q)"
  proof (cases "cell_prism (g q)")
    case None
    then show ?thesis
      unfolding content_rotateGrid(1) [OF g'' va' vg'] content_rotateGrid(1) [OF g' va vg]
      using q q' by (simp add: unrotatePoint_round_trip [OF a])
  next
    case (Some p)
    from validPrismsD [OF vg Some] have "rotatedPrism (360 - a) (rotatedPrism a p) = p"
      by (rule rotatedPrism_round_trip [OF a])
    with Some show ?thesis
      unfolding content_rotateGrid(1) [OF g'' va' vg'] content_rotateGrid(1) [OF g' va vg]
      using q q' by (simp add: unrotatePoint_round_trip [OF a])
  qed
  have t: "cell_target (g'' q) = cell_target (g q)"
    unfolding content_rotateGrid(2) [OF g'' va' vg'] content_rotateGrid(2) [OF g' va vg]
    using q q'
    by (cases "cell_target (g q)")
      (simp_all add: unrotatePoint_round_trip [OF a] rotatedTarget_round_trip [OF a])
  show ?thesis
    by (rule cell.equality)
      (simp_all add: w p t xy content_rotateGrid(3,4) [OF g'' va' vg'])
qed

text \<open>
  C9. For every face that \<^verbatim>\<open>createCells\<close> materialises and every angle \<open>a\<close> of 90, 180 and
  270, rotating the face by \<open>a\<close> and the result by \<open>360 - a\<close> succeeds and gives back every
  cell of the 8 by 8 grid: its coordinates, its four wall flags, its prism and its target.
  Rotating by 0 returns the materialised face itself.
\<close>

theorem rotation_round_trip:
  assumes "createCells sb fid = Inr g" and "a = 90 \<or> a = 180 \<or> a = 270"
  shows "rotateCells sb fid 0 = Inr g \<and>
    (\<exists>g' g''. rotateCells sb fid a = Inr g' \<and> rotateGrid (360 - a) g' = Inr g'' \<and>
       (\<forall>x y. inRange SMALL_BOARD_SIZE x y \<longrightarrow> g'' (x, y) = g (x, y)))"
proof -
  from assms(2) have va: "validAngle a" and va': "validAngle (360 - a)" and a0: "a \<noteq> 0"
    by (auto simp: validAngle_def)
  have m: "materialised g"
    using assms(1) by (rule materialised_createCells)
  then have vg: "validPrisms g" by (simp add: materialised_def)
  from rotateGrid_ok [OF va vg] obtain g' where g': "rotateGrid a g = Inr g'" by blast
  from materialised_rotateGrid [OF g' va vg] have vg': "validPrisms g'"
    by (simp add: materialised_def)
  from rotateGrid_ok [OF va' vg'] obtain g'' where g'': "rotateGrid (360 - a) g' = Inr g''" by blast
  have "rotateCells sb fid a = Inr g'"
    using a0 by (simp add: rotateCells_def assms(1) g')
  moreover have "\<forall>x y. inRange SMALL_BOARD_SIZE x y \<longrightarrow> g'' (x, y) = g (x, y)"
    using round_trip_cell [OF m assms(2) g' g''] by simp
  moreover have "rotateCells sb fid 0 = Inr g"
    by (simp add: rotateCells_def assms(1))
  ultimately show ?thesis using g'' by blast
qed

lemma createCells_sb_demo:
  "\<exists>g. createCells sb_demo 0 = Inr g \<and> hasWall (g (2, 5)) WRight \<and> hasWall (g (3, 5)) WLeft \<and>
     cell_prism (g (3, 3)) = Some \<lparr>prism_x = 3, prism_y = 3, prism_dir = Backslash, prism_color = Yellow\<rparr>"
  by (simp add: createCells_def getFace_def sb_demo_def face_tl_def addWallData_def addPrismData_def
      addTargetData_def newPrism_def inRange_def SMALL_BOARD_SIZE_def syncAdjacentWall_def
      setWallAt_def setPrismAt_def setTargetAt_def setWall_def setPrism_def setTarget_def
      hasWall_def emptyGrid_def newCell_def Let_def)

theorem rotation_round_trip_witness:
  "\<exists>g g' g''. createCells sb_demo 0 = Inr g \<and> rotateCells sb_demo 0 0 = Inr g \<and>
     rotateCells sb_demo 0 90 = Inr g' \<and> rotateGrid 270 g' = Inr g'' \<and>
     hasWall (g (2, 5)) WRight \<and> hasWall (g' (2, 2)) WBottom \<and> hasWall (g'' (2, 5)) WRight \<and>
     g'' (2, 5) = g (2, 5) \<and> g'' (3, 3) = g (3, 3)"
proof -
  from createCells_sb_demo obtain g where g: "createCells sb_demo 0 = Inr g"
    and w: "hasWall (g (2, 5)) WRight" by blast
  from rotation_round_trip [OF g, of 90] obtain g' g'' where
    r0: "rotateCells sb_demo 0 0 = Inr g" and
    r: "rotateCells sb_demo 0 90 = Inr g'" and r': "rotateGrid 270 g' = Inr g''" and
    eq: "\<forall>x y. inRange SMALL_BOARD_SIZE x y \<longrightarrow> g'' (x, y) = g (x, y)"
    by auto
  from r g have rg: "rotateGrid 90 g = Inr g'"
    by (simp add: rotateCells_def)
  have "hasWall (g' (2, 2)) WBottom"
    unfolding hasWall_def walls_rotateGrid [OF rg, unfolded validAngle_def, simplified]
    using w by (simp add: inRange_def SMALL_BOARD_SIZE_def unrotatePoint_def unrotateSide_def
        rotations_valid sides_def hasWall_def)
  moreover from eq have e: "g'' (2, 5) = g (2, 5)" "g'' (3, 3) = g (3, 3)"
    by (simp_all add: inRange_def SMALL_BOARD_SIZE_def)
  ultimately show ?thesis using g r0 r r' w by auto
qed

section \<open>The assembly of a well-formed catalogue succeeds\<close>

lemma rotateGrid_rotatedGrid:
  assumes "rotateGrid a g = Inr g'" and "validAngle a" and "validPrisms g"
  shows "g' = rotatedGrid a g"
proof
  fix q
  have "walls (g' q) = (\<lambda>t. inRange SMALL_BOARD_SIZE (fst q) (snd q) \<and>
                          hasWall (g (unrotatePoint a q)) (unrotateSide a t))"
    by (rule ext) (simp add: walls_rotateGrid [OF assms(1,2)])
  then show "g' q = rotatedGrid a g q"
    by (intro cell.equality) (simp_all add: rotatedGrid_def content_rotateGrid [OF assms])
qed

lemma walls_syncAdjacentWall:
  "walls (syncAdjacentWall g x y s q) t =
     (walls (g q) t \<or> (q = (x + side_dx s, y + side_dy s) \<and>
        inRange SMALL_BOARD_SIZE (fst q) (snd q) \<and> t = opposite_side s))"
  by (auto simp: syncAdjacentWall_def Let_def walls_setWallAt inRange_def)

lemma walls_addWallData:
  assumes "addWallData wd g = Inr g'"
  shows "walls (g' q) t =
    (walls (g q) t \<or> (\<exists>s\<in>set (wd_sides wd).
         (q = (wd_x wd, wd_y wd) \<and> t = s) \<or>
         (q = (wd_x wd + side_dx s, wd_y wd + side_dy s) \<and>
          inRange SMALL_BOARD_SIZE (fst q) (snd q) \<and> t = opposite_side s)))"
proof (cases "wd_sides wd = []")
  case True
  with assms show ?thesis by (auto simp: addWallData_def split: if_splits)
next
  case False
  with assms have g': "g' = fold (\<lambda>s g'. syncAdjacentWall (setWallAt g' (wd_x wd, wd_y wd) s)
      (wd_x wd) (wd_y wd) s) (wd_sides wd) g"
    by (auto simp: addWallData_def split: if_splits)
  show ?thesis
    unfolding g'
    by (rule fold_adds_walls) (auto simp: walls_syncAdjacentWall walls_setWallAt)
qed

lemma walls_createCells:
  assumes f: "getFace sb fid = Inr f" and g: "createCells sb fid = Inr g"
  shows "walls (g q) t = faceWall f q t"
proof -
  from g obtain g1 where w: "foldE addWallData (face_walls f) emptyGrid = Inr g1"
    by (cases "foldE addWallData (face_walls f) emptyGrid") (simp_all add: createCells_def f)
  from g obtain g2 where p: "foldE addPrismData (face_prisms f) g1 = Inr g2"
    by (cases "foldE addPrismData (face_prisms f) g1") (simp_all add: createCells_def f w)
  from g have t: "foldE addTargetData (face_targets f) g2 = Inr g"
    by (simp add: createCells_def f w p)
  have "walls (g1 q) t = (walls (emptyGrid q) t \<or> (\<exists>wd\<in>set (face_walls f). \<exists>s\<in>set (wd_sides wd).
         (q = (wd_x wd, wd_y wd) \<and> t = s) \<or>
         (q = (wd_x wd + side_dx s, wd_y wd + side_dy s) \<and>
          inRange SMALL_BOARD_SIZE (fst q) (snd q) \<and> t = opposite_side s)))"
    by (rule foldE_adds_walls [OF _ w]) (rule walls_addWallData)
  then have g1: "walls (g1 q) t = faceWall f q t"
    by (simp add: emptyGrid_simps faceWall_def list_ex_iff)
  have "walls (g2 q) = walls (g1 q)"
    by (rule foldE_keeps [where P = "\<lambda>g. walls (g q)", OF _ p])
      (auto simp: addPrismData_def setPrismAt_simps split: sum.splits if_splits)
  moreover have "walls (g q) = walls (g2 q)"
    by (rule foldE_keeps [where P = "\<lambda>g. walls (g q)", OF _ t])
      (auto simp: addTargetData_def setTargetAt_simps split: if_splits)
  ultimately show ?thesis using g1 by simp
qed

lemma find_snoc:
  "find P (ys @ [x]) = (case find P ys of Some y \<Rightarrow> Some y | None \<Rightarrow> if P x then Some x else None)"
  by (induction ys) auto

lemma find_rev_snoc:
  "find P (rev (x # xs)) = (case find P (rev xs) of Some y \<Rightarrow> Some y | None \<Rightarrow> if P x then Some x else None)"
  by (simp add: find_snoc)

lemma newPrism_same: "newPrism (prism_x pd) (prism_y pd) (prism_dir pd) (prism_color pd) = Inr p \<Longrightarrow> p = pd"
  by (auto simp: newPrism_def split: if_splits)

lemma prism_addPrismData_list:
  assumes "foldE addPrismData xs g = Inr g'"
  shows "cell_prism (g' q) =
    (case find (\<lambda>p. (prism_x p, prism_y p) = q) (rev xs) of
       Some p \<Rightarrow> Some p | None \<Rightarrow> cell_prism (g q))"
  using assms
proof (induction xs arbitrary: g)
  case Nil
  then show ?case by simp
next
  case (Cons pd xs)
  then obtain g1 where g1: "addPrismData pd g = Inr g1" and rest: "foldE addPrismData xs g1 = Inr g'"
    by (auto split: sum.splits)
  from g1 have g1': "g1 = setPrismAt g (prism_x pd, prism_y pd) pd"
    by (auto simp: addPrismData_def split: sum.splits if_splits dest: newPrism_same)
  show ?case
    unfolding Cons.IH [OF rest] find_rev_snoc g1'
    by (auto simp: setPrismAt_simps split: option.splits)
qed

lemma target_addTargetData_list:
  assumes "foldE addTargetData xs g = Inr g'"
  shows "cell_target (g' q) =
    (case find (\<lambda>t. (target_x t, target_y t) = q) (rev xs) of
       Some t \<Rightarrow> Some t | None \<Rightarrow> cell_target (g q))"
  using assms
proof (induction xs arbitrary: g)
  case Nil
  then show ?case by simp
next
  case (Cons td xs)
  then obtain g1 where g1: "addTargetData td g = Inr g1" and rest: "foldE addTargetData xs g1 = Inr g'"
    by (auto split: sum.splits)
  from g1 have g1': "g1 = setTargetAt g (target_x td, target_y td) td"
    by (auto simp: addTargetData_def split: if_splits)
  show ?case
    unfolding Cons.IH [OF rest] find_rev_snoc g1'
    by (auto simp: setTargetAt_simps split: option.splits)
qed

lemma createCells_faceGrid:
  assumes f: "getFace sb fid = Inr f" and g: "createCells sb fid = Inr g"
  shows "g = faceGrid f"
proof
  fix q
  from g obtain g1 where w: "foldE addWallData (face_walls f) emptyGrid = Inr g1"
    by (cases "foldE addWallData (face_walls f) emptyGrid") (simp_all add: createCells_def f)
  from g obtain g2 where p: "foldE addPrismData (face_prisms f) g1 = Inr g2"
    by (cases "foldE addPrismData (face_prisms f) g1") (simp_all add: createCells_def f w)
  from g have t: "foldE addTargetData (face_targets f) g2 = Inr g"
    by (simp add: createCells_def f w p)
  have g1p: "cell_prism (g1 q) = None"
    using foldE_keeps [where P = "\<lambda>g. cell_prism (g q)", OF _ w]
    by (simp add: content_addWallData emptyGrid_simps)
  have g1t: "cell_target (g1 q) = None"
    using foldE_keeps [where P = "\<lambda>g. cell_target (g q)", OF _ w]
    by (simp add: content_addWallData emptyGrid_simps)
  have g2t: "cell_target (g2 q) = cell_target (g1 q)"
    by (rule foldE_keeps [where P = "\<lambda>g. cell_target (g q)", OF _ p])
      (auto simp: addPrismData_def setPrismAt_simps split: sum.splits if_splits)
  have gp: "cell_prism (g q) = cell_prism (g2 q)"
    by (rule foldE_keeps [where P = "\<lambda>g. cell_prism (g q)", OF _ t])
      (auto simp: addTargetData_def setTargetAt_simps split: if_splits)
  have pr: "cell_prism (g q) = facePrism f q"
    unfolding gp prism_addPrismData_list [OF p] facePrism_def g1p by (simp split: option.splits)
  have tg: "cell_target (g q) = faceTarget f q"
    unfolding target_addTargetData_list [OF t] faceTarget_def g2t g1t by (simp split: option.splits)
  have wl: "walls (g q) = faceWall f q"
    by (rule ext) (rule walls_createCells [OF f g])
  from materialised_createCells [OF g] have "cell_x (g q) = fst q" "cell_y (g q) = snd q"
    unfolding materialised_def by blast+
  then show "g q = faceGrid f q"
    by (intro cell.equality) (simp_all add: faceGrid_def pr tg wl)
qed

lemma foldE_succeeds_all:
  assumes "\<And>a g. a \<in> set xs \<Longrightarrow> \<exists>g'. f a g = Inr g'"
  shows "\<exists>g'. foldE f xs g = Inr g'"
proof -
  have "\<exists>g'. foldE f xs g = Inr g' \<and> True"
    by (rule foldE_succeeds) (use assms in auto)
  then show ?thesis by simp
qed

lemma createCells_ok:
  assumes f: "getFace sb fid = Inr f" and ok: "faceOK f"
  shows "createCells sb fid = Inr (faceGrid f)"
proof -
  from ok have w: "\<And>wd. wd \<in> set (face_walls f) \<Longrightarrow> wd_y wd \<ge> 0 \<and> wd_y wd < SMALL_BOARD_SIZE \<and>
                     (wd_sides wd = [] \<or> (wd_x wd \<ge> 0 \<and> wd_x wd < SMALL_BOARD_SIZE))"
    and p: "\<And>p. p \<in> set (face_prisms f) \<Longrightarrow> prism_color p \<noteq> Rainbow \<and> inRange SMALL_BOARD_SIZE (prism_x p) (prism_y p)"
    and t: "\<And>t. t \<in> set (face_targets f) \<Longrightarrow> inRange SMALL_BOARD_SIZE (target_x t) (target_y t)"
    by (auto simp: faceOK_def list_all_iff)
  have "\<exists>g1. foldE addWallData (face_walls f) emptyGrid = Inr g1"
    by (rule foldE_succeeds_all) (use w in \<open>auto simp: addWallData_def\<close>)
  then obtain g1 where g1: "foldE addWallData (face_walls f) emptyGrid = Inr g1" ..
  have "\<exists>g2. foldE addPrismData (face_prisms f) g1 = Inr g2"
    by (rule foldE_succeeds_all) (use p in \<open>auto simp: addPrismData_def newPrism_ok\<close>)
  then obtain g2 where g2: "foldE addPrismData (face_prisms f) g1 = Inr g2" ..
  have "\<exists>g. foldE addTargetData (face_targets f) g2 = Inr g"
    by (rule foldE_succeeds_all) (use t in \<open>auto simp: addTargetData_def\<close>)
  then obtain g where "foldE addTargetData (face_targets f) g2 = Inr g" ..
  then have g: "createCells sb fid = Inr g"
    by (simp add: createCells_def f g1 g2)
  with createCells_faceGrid [OF f g] show ?thesis by simp
qed

lemma rotateCells_ok:
  assumes f: "getFace sb fid = Inr f" and ok: "faceOK f" and a: "validAngle a"
  shows "rotateCells sb fid a = Inr (moduleGrid a f)"
proof (cases "a = 0")
  case True
  then show ?thesis
    by (simp add: rotateCells_def moduleGrid_def createCells_ok [OF f ok])
next
  case False
  have g: "createCells sb fid = Inr (faceGrid f)"
    by (rule createCells_ok [OF f ok])
  from materialised_createCells [OF g] have v: "validPrisms (faceGrid f)"
    by (simp add: materialised_def)
  from rotateGrid_ok [OF a v] obtain g' where g': "rotateGrid a (faceGrid f) = Inr g'" by blast
  from rotateGrid_rotatedGrid [OF g' a v] g' False show ?thesis
    by (simp add: rotateCells_def moduleGrid_def g)
qed

lemma materialised_moduleGrid:
  assumes f: "getFace sb fid = Inr f" and ok: "faceOK f" and a: "validAngle a"
  shows "materialised (moduleGrid a f)"
proof (cases "a = 0")
  case True
  with materialised_createCells [OF createCells_ok [OF f ok]] show ?thesis
    by (simp add: moduleGrid_def)
next
  case False
  from materialised_createCells [OF createCells_ok [OF f ok]] have v: "validPrisms (faceGrid f)"
    by (simp add: materialised_def)
  from rotateCells_ok [OF f ok a] False have "rotateGrid a (faceGrid f) = Inr (moduleGrid a f)"
    by (simp add: rotateCells_def createCells_ok [OF f ok])
  from materialised_rotateGrid [OF this a v] show ?thesis .
qed

lemma getCorner_less: "getCorner p = Inr c \<Longrightarrow> c < 4"
  by (auto simp: getCorner_def Let_def split: if_splits)

lemma calculateRotationAngle_valid:
  assumes "calculateRotationAngle og tg = Inr a"
  shows "validAngle a"
proof -
  from assms obtain oc tc where oc: "getCorner og = Inr oc" and tc: "getCorner tg = Inr tc"
    and a: "a = nat ((int tc - int oc + 4) mod 4) * 90"
    by (auto simp: calculateRotationAngle_def split: sum.splits)
  have "nat ((int tc - int oc + 4) mod 4) < 4"
    by simp
  then have "nat ((int tc - int oc + 4) mod 4) \<in> {0, 1, 2, 3}"
    by auto
  then show ?thesis
    unfolding a validAngle_def by auto
qed

lemma copyCell_ok:
  assumes "validPrisms rc"
  shows "\<exists>g'. copyCell off rc xy g = Inr g'"
proof (cases "cell_prism (rc xy)")
  case None
  then show ?thesis
    by (cases "cell_target (rc xy)") (simp_all add: copyCell_def Let_def)
next
  case (Some p)
  from validPrismsD [OF assms Some] have "prism_clone p = Inr p"
    by (simp add: prism_clone_def newPrism_ok)
  with Some show ?thesis
    by (cases "cell_target (rc xy)") (simp_all add: copyCell_def Let_def)
qed

lemma placeQuadrant_ok:
  assumes "validPrisms rc"
  shows "\<exists>g'. foldE (copyCell off rc) xs g = Inr g'"
  by (rule foldE_succeeds_all) (rule copyCell_ok [OF assms])

text \<open>
  The assembly, as a whole: a configuration that passes \<^verbatim>\<open>validateConfig\<close> and whose four
  modules are found, have a corner as their gap and hold face data inside the 8 by 8 grid
  is assembled into a board whose walls and prisms are the closed forms above.
\<close>

lemma sourceGrid_ok:
  assumes "snd pi < length config"
    and "lookupSmallBoard smallBoards (boardId (config ! snd pi)) = Some sb"
    and "calculateRotationForPosition sb (fst pi) = Inr a"
    and "getFace sb (faceId (config ! snd pi)) = Inr f" and "faceOK f"
  shows "sourceGrid config smallBoards pi = Inr (moduleGrid a f)"
    and "validPrisms (moduleGrid a f)"
proof -
  from assms(3) have a: "validAngle a"
    unfolding calculateRotationForPosition_def by (rule calculateRotationAngle_valid)
  show "sourceGrid config smallBoards pi = Inr (moduleGrid a f)"
    by (simp add: sourceGrid_def assms(1,2,3) rotateCells_ok [OF assms(4,5) a])
  from materialised_moduleGrid [OF assms(4,5) a] show "validPrisms (moduleGrid a f)"
    by (simp add: materialised_def)
qed

lemma init_ok:
  assumes v: "validateConfig config smallBoards = Inr ()"
    and s0: "sourceGrid config smallBoards (TopLeft, 0) = Inr rc0" and v0: "validPrisms rc0"
    and s1: "sourceGrid config smallBoards (TopRight, 1) = Inr rc1" and v1: "validPrisms rc1"
    and s2: "sourceGrid config smallBoards (BottomLeft, 2) = Inr rc2" and v2: "validPrisms rc2"
    and s3: "sourceGrid config smallBoards (BottomRight, 3) = Inr rc3" and v3: "validPrisms rc3"
  shows "\<exists>b. init config smallBoards = Inr b \<and> board_size b = LARGE_BOARD_SIZE \<and>
    (\<forall>q t. walls (cells b q) t = assembledWall rc0 rc1 rc2 rc3 q t) \<and>
    (\<forall>q. cell_prism (cells b q) = assembledPrism rc0 rc1 rc2 rc3 q)"
proof -
  from placeQuadrant_ok [OF v0] obtain g1 where
    g1: "foldE (copyCell (0, 0) rc0) (coords SMALL_BOARD_SIZE) createEmptyCells = Inr g1" by blast
  from placeQuadrant_ok [OF v1] obtain g2 where
    g2: "foldE (copyCell (8, 0) rc1) (coords SMALL_BOARD_SIZE) g1 = Inr g2" by blast
  from placeQuadrant_ok [OF v2] obtain g3 where
    g3: "foldE (copyCell (0, 8) rc2) (coords SMALL_BOARD_SIZE) g2 = Inr g3" by blast
  from placeQuadrant_ok [OF v3] obtain g4 where
    g4: "foldE (copyCell (8, 8) rc3) (coords SMALL_BOARD_SIZE) g3 = Inr g4" by blast
  have s1': "sourceGrid config smallBoards (TopRight, Suc 0) = Inr rc1"
    using s1 by simp
  have "placeSmallBoards config smallBoards createEmptyCells = Inr g4"
    by (simp add: placeSmallBoards_def placeOne_sourceGrid s0 s1' s2 s3 g1 g2 g3 g4)
  then obtain b where b: "init config smallBoards = Inr b"
    by (simp add: init_def v Let_def)
  from init_closed_form [OF b] s0 s1 s2 s3 show ?thesis
    using b by auto
qed

section \<open>The board of the examples\<close>

lemma faceOK_demo: "faceOK face_tl" "faceOK face_tr" "faceOK face_bl" "faceOK face_br"
  by (simp_all add: faceOK_def face_tl_def face_tr_def face_bl_def face_br_def
      SMALL_BOARD_SIZE_def inRange_def)

lemma validateConfig_demo: "validateConfig config_demo catalogue_demo = Inr ()"
  by (simp add: validateConfig_def config_demo_def validateStep_def lookupSmallBoard_def
      catalogue_demo_def sb_demo_def)

lemma face_id_demo: "face_id face_tl = 0" "face_id face_tr = 0" "face_id face_bl = 0" "face_id face_br = 0"
  by (simp_all add: face_tl_def face_tr_def face_bl_def face_br_def)

lemma sourceGrid_demo_tl:
  "sourceGrid config_demo catalogue_demo (TopLeft, 0) = Inr (moduleGrid 0 face_tl)"
  "validPrisms (moduleGrid 0 face_tl)"
proof -
  let ?sb = "sb_demo"
  have 1: "snd (TopLeft, 0 :: nat) < length config_demo"
    by (simp add: config_demo_def)
  have 2: "lookupSmallBoard catalogue_demo (boardId (config_demo ! snd (TopLeft, 0 :: nat))) = Some ?sb"
    by (simp add: config_demo_def catalogue_demo_def lookupSmallBoard_def)
  have 3: "calculateRotationForPosition ?sb (fst (TopLeft, 0 :: nat)) = Inr 0"
    by (simp add: calculateRotationForPosition_def calculateRotationAngle_def getCorner_def
        SMALL_BOARD_SIZE_def sb_demo_def)
  have 4: "getFace ?sb (faceId (config_demo ! snd (TopLeft, 0 :: nat))) = Inr face_tl"
    by (simp add: config_demo_def getFace_def face_id_demo sb_demo_def)
  show "sourceGrid config_demo catalogue_demo (TopLeft, 0) = Inr (moduleGrid 0 face_tl)"
    by (rule sourceGrid_ok(1) [OF 1 2 3 4 faceOK_demo(1)])
  show "validPrisms (moduleGrid 0 face_tl)"
    by (rule sourceGrid_ok(2) [OF 1 2 3 4 faceOK_demo(1)])
qed

lemma sourceGrid_demo_tr:
  "sourceGrid config_demo catalogue_demo (TopRight, 1) = Inr (moduleGrid 270 face_tr)"
  "validPrisms (moduleGrid 270 face_tr)"
proof -
  let ?sb = "\<lparr>sb_id = 1, sb_color = Yellow, sb_originalGap = (0, 0), sb_faces = [face_tr]\<rparr>"
  have 1: "snd (TopRight, 1 :: nat) < length config_demo"
    by (simp add: config_demo_def)
  have 2: "lookupSmallBoard catalogue_demo (boardId (config_demo ! snd (TopRight, 1 :: nat))) = Some ?sb"
    by (simp add: config_demo_def catalogue_demo_def lookupSmallBoard_def)
  have 3: "calculateRotationForPosition ?sb (fst (TopRight, 1 :: nat)) = Inr 270"
    by (simp add: calculateRotationForPosition_def calculateRotationAngle_def getCorner_def
        SMALL_BOARD_SIZE_def sb_demo_def)
  have 4: "getFace ?sb (faceId (config_demo ! snd (TopRight, 1 :: nat))) = Inr face_tr"
    by (simp add: config_demo_def getFace_def face_id_demo sb_demo_def)
  show "sourceGrid config_demo catalogue_demo (TopRight, 1) = Inr (moduleGrid 270 face_tr)"
    by (rule sourceGrid_ok(1) [OF 1 2 3 4 faceOK_demo(2)])
  show "validPrisms (moduleGrid 270 face_tr)"
    by (rule sourceGrid_ok(2) [OF 1 2 3 4 faceOK_demo(2)])
qed

lemma sourceGrid_demo_bl:
  "sourceGrid config_demo catalogue_demo (BottomLeft, 2) = Inr (moduleGrid 0 face_bl)"
  "validPrisms (moduleGrid 0 face_bl)"
proof -
  let ?sb = "\<lparr>sb_id = 2, sb_color = Blue, sb_originalGap = (7, 0), sb_faces = [face_bl]\<rparr>"
  have 1: "snd (BottomLeft, 2 :: nat) < length config_demo"
    by (simp add: config_demo_def)
  have 2: "lookupSmallBoard catalogue_demo (boardId (config_demo ! snd (BottomLeft, 2 :: nat))) = Some ?sb"
    by (simp add: config_demo_def catalogue_demo_def lookupSmallBoard_def)
  have 3: "calculateRotationForPosition ?sb (fst (BottomLeft, 2 :: nat)) = Inr 0"
    by (simp add: calculateRotationForPosition_def calculateRotationAngle_def getCorner_def
        SMALL_BOARD_SIZE_def sb_demo_def)
  have 4: "getFace ?sb (faceId (config_demo ! snd (BottomLeft, 2 :: nat))) = Inr face_bl"
    by (simp add: config_demo_def getFace_def face_id_demo sb_demo_def)
  show "sourceGrid config_demo catalogue_demo (BottomLeft, 2) = Inr (moduleGrid 0 face_bl)"
    by (rule sourceGrid_ok(1) [OF 1 2 3 4 faceOK_demo(3)])
  show "validPrisms (moduleGrid 0 face_bl)"
    by (rule sourceGrid_ok(2) [OF 1 2 3 4 faceOK_demo(3)])
qed

lemma sourceGrid_demo_br:
  "sourceGrid config_demo catalogue_demo (BottomRight, 3) = Inr (moduleGrid 0 face_br)"
  "validPrisms (moduleGrid 0 face_br)"
proof -
  let ?sb = "\<lparr>sb_id = 3, sb_color = Green, sb_originalGap = (0, 0), sb_faces = [face_br]\<rparr>"
  have 1: "snd (BottomRight, 3 :: nat) < length config_demo"
    by (simp add: config_demo_def)
  have 2: "lookupSmallBoard catalogue_demo (boardId (config_demo ! snd (BottomRight, 3 :: nat))) = Some ?sb"
    by (simp add: config_demo_def catalogue_demo_def lookupSmallBoard_def)
  have 3: "calculateRotationForPosition ?sb (fst (BottomRight, 3 :: nat)) = Inr 0"
    by (simp add: calculateRotationForPosition_def calculateRotationAngle_def getCorner_def
        SMALL_BOARD_SIZE_def sb_demo_def)
  have 4: "getFace ?sb (faceId (config_demo ! snd (BottomRight, 3 :: nat))) = Inr face_br"
    by (simp add: config_demo_def getFace_def face_id_demo sb_demo_def)
  show "sourceGrid config_demo catalogue_demo (BottomRight, 3) = Inr (moduleGrid 0 face_br)"
    by (rule sourceGrid_ok(1) [OF 1 2 3 4 faceOK_demo(4)])
  show "validPrisms (moduleGrid 0 face_br)"
    by (rule sourceGrid_ok(2) [OF 1 2 3 4 faceOK_demo(4)])
qed

lemma board_demo:
  "init config_demo catalogue_demo = Inr board_demo"
  "board_size board_demo = 16"
  "walls (cells board_demo q) t =
     assembledWall (moduleGrid 0 face_tl) (moduleGrid 270 face_tr)
       (moduleGrid 0 face_bl) (moduleGrid 0 face_br) q t"
  "cell_prism (cells board_demo q) =
     assembledPrism (moduleGrid 0 face_tl) (moduleGrid 270 face_tr)
       (moduleGrid 0 face_bl) (moduleGrid 0 face_br) q"
proof -
  from init_ok [OF validateConfig_demo sourceGrid_demo_tl sourceGrid_demo_tr
      sourceGrid_demo_bl sourceGrid_demo_br]
  obtain b where b: "init config_demo catalogue_demo = Inr b" "board_size b = LARGE_BOARD_SIZE"
    "\<forall>q t. walls (cells b q) t =
     assembledWall (moduleGrid 0 face_tl) (moduleGrid 270 face_tr)
       (moduleGrid 0 face_bl) (moduleGrid 0 face_br) q t"
    "\<forall>q. cell_prism (cells b q) =
     assembledPrism (moduleGrid 0 face_tl) (moduleGrid 270 face_tr)
       (moduleGrid 0 face_bl) (moduleGrid 0 face_br) q"
    by blast
  from b(1) have bd: "board_demo = b" by (simp add: board_demo_def)
  show "init config_demo catalogue_demo = Inr board_demo" using b(1) bd by simp
  show "board_size board_demo = 16" using b(2) bd by (simp add: LARGE_BOARD_SIZE_def)
  show "walls (cells board_demo q) t =
     assembledWall (moduleGrid 0 face_tl) (moduleGrid 270 face_tr)
       (moduleGrid 0 face_bl) (moduleGrid 0 face_br) q t"
    using b(3) unfolding bd by blast
  show "cell_prism (cells board_demo q) =
     assembledPrism (moduleGrid 0 face_tl) (moduleGrid 270 face_tr)
       (moduleGrid 0 face_bl) (moduleGrid 0 face_br) q"
    using b(4) unfolding bd by blast
qed

lemmas board_eval =
  assembledWall_def assembledPrism_def boundaryWall_def centralWall_def placedWall_def
  placedPrism_def moduleGrid_def faceGrid_def rotatedGrid_def faceWall_def facePrism_def
  faceTarget_def face_tl_def face_tr_def face_bl_def face_br_def inRange_def
  SMALL_BOARD_SIZE_def LARGE_BOARD_SIZE_def isRealOuterBoundary_def isInCentralArea_def
  blocked_x_def blocked_y_def unrotatePoint_def unrotateSide_def rotations_valid sides_def
  hasWall_def Let_def rotatedPrism_def prism_rotate_def rotatePoint_def newPrism_def
  rotatePrismDirection_def

lemma getCell_board_demo:
  "0 \<le> x \<Longrightarrow> x < 16 \<Longrightarrow> 0 \<le> y \<Longrightarrow> y < 16 \<Longrightarrow> getCell board_demo x y = Some (cells board_demo (x, y))"
  by (simp add: getCell_def board_demo(2))

theorem central_area_sealed_witness:
  "init config_demo catalogue_demo = Inr board_demo \<and>
   hasWall (cells board_demo (7, 7)) WTop \<and> hasWall (cells board_demo (8, 7)) WLeft \<and>
   hasWall (cells board_demo (7, 8)) WRight \<and> hasWall (cells board_demo (8, 8)) WBottom \<and>
   \<not> hasPrism (cells board_demo (8, 8)) \<and> \<not> hasTarget (cells board_demo (7, 8)) \<and>
   hasWall (cells board_demo (6, 7)) WRight \<and> hasWall (cells board_demo (8, 9)) WTop"
  using central_area_sealed [OF board_demo(1)] board_demo(1) by simp

theorem wall_symmetry_witness:
  "init config_demo catalogue_demo = Inr board_demo \<and>
   getCell board_demo 7 2 = Some (cells board_demo (7, 2)) \<and>
   getCell board_demo 8 2 = Some (cells board_demo (8, 2)) \<and>
   hasWall (cells board_demo (7, 2)) WRight \<and> hasWall (cells board_demo (8, 2)) WLeft \<and>
   hasWall (cells board_demo (7, 3)) WRight = hasWall (cells board_demo (8, 3)) WLeft"
proof -
  have c: "getCell board_demo 7 2 = Some (cells board_demo (7, 2))"
    "getCell board_demo (7 + side_dx WRight) (2 + side_dy WRight) = Some (cells board_demo (8, 2))"
    "getCell board_demo 7 3 = Some (cells board_demo (7, 3))"
    "getCell board_demo (7 + side_dx WRight) (3 + side_dy WRight) = Some (cells board_demo (8, 3))"
    by (simp_all add: getCell_board_demo)
  have w: "hasWall (cells board_demo (7, 2)) WRight"
    by (simp add: board_demo(3) board_eval)
  from wall_symmetry [OF board_demo(1) c(1,2)] wall_symmetry [OF board_demo(1) c(3,4)] w c
  show ?thesis by (simp add: board_demo(1) getCell_board_demo)
qed

text \<open>Some cells of the board of the examples.\<close>

lemma board_demo_cells:
  "hasWall (cells board_demo (9, 6)) WLeft"
  "\<not> hasWall (cells board_demo (3, 3)) WRight"
  "cell_prism (cells board_demo (3, 3)) = Some \<lparr>prism_x = 3, prism_y = 3, prism_dir = Backslash, prism_color = Yellow\<rparr>"
  "cell_prism (cells board_demo (5, 10)) = Some \<lparr>prism_x = 5, prism_y = 10, prism_dir = Backslash, prism_color = Blue\<rparr>"
  "cell_prism (cells board_demo (4, 10)) = None"
  "hasWall (cells board_demo (13, 15)) WLeft"
  by (simp_all add: board_demo(3,4) board_eval)

section \<open>PathFinder: properties of the move simulation\<close>

lemma moveLoop_blocked:
  "stepBlocked b sx sy d rs x y \<Longrightarrow> moveLoop b sx sy d rs x y m = (m, x, y)"
  by (subst moveLoop.simps) simp

lemma moveLoop_advance:
  "\<not> stepBlocked b sx sy d rs x y \<Longrightarrow>
   moveLoop b sx sy d rs x y m =
     (case getCell b (x + delta_dx d) (y + delta_dy d) of
        None \<Rightarrow> moveLoop b sx sy d rs (x + delta_dx d) (y + delta_dy d) True
      | Some c \<Rightarrow> if hasPrism c then (True, x + delta_dx d, y + delta_dy d)
                  else moveLoop b sx sy d rs (x + delta_dx d) (y + delta_dy d) True)"
  by (subst moveLoop.simps) (simp add: Let_def)

lemma not_blocked_inRange:
  "\<not> stepBlocked b sx sy d rs x y \<Longrightarrow> inRange (board_size b) (x + delta_dx d) (y + delta_dy d)"
  by (auto simp: stepBlocked_def Let_def inRange_def split: if_splits)

lemma moveLoop_result:
  "moveLoop b sx sy d rs x y m = (mv, x', y') \<Longrightarrow>
   \<exists>k::nat. x' = x + int k * delta_dx d \<and> y' = y + int k * delta_dy d \<and> mv = (m \<or> k > 0) \<and>
     (k > 0 \<longrightarrow> inRange (board_size b) x' y')"
proof (induction b sx sy d rs x y m rule: moveLoop.induct)
  case (1 b sx sy d rs x y m)
  show ?case
  proof (cases "stepBlocked b sx sy d rs x y")
    case True
    with "1.prems" have "mv = m" "x' = x" "y' = y" by (simp_all add: moveLoop_blocked)
    then show ?thesis by (intro exI [where x = 0]) simp
  next
    case False
    note nb = this
    let ?nx = "x + delta_dx d" and ?ny = "y + delta_dy d"
    have step: "\<exists>k::nat. x' = ?nx + int k * delta_dx d \<and> y' = ?ny + int k * delta_dy d \<and>
        mv = True \<and> inRange (board_size b) x' y'"
    proof (cases "getCell b ?nx ?ny")
      case None
      with "1.prems" nb have r: "moveLoop b sx sy d rs ?nx ?ny True = (mv, x', y')"
        by (simp add: moveLoop_advance)
      from "1.IH"(1) [OF nb refl refl None r] obtain k :: nat where
        k: "x' = ?nx + int k * delta_dx d" "y' = ?ny + int k * delta_dy d" "mv = True"
          "k > 0 \<longrightarrow> inRange (board_size b) x' y'"
        by auto
      with not_blocked_inRange [OF nb] have "inRange (board_size b) x' y'"
        by (cases "k = 0") auto
      with k show ?thesis by blast
    next
      case (Some c)
      show ?thesis
      proof (cases "hasPrism c")
        case True
        with "1.prems" nb Some have "mv = True" "x' = ?nx" "y' = ?ny"
          by (simp_all add: moveLoop_advance)
        with not_blocked_inRange [OF nb] show ?thesis
          by (intro exI [where x = 0]) simp
      next
        case False
        with "1.prems" nb Some have r: "moveLoop b sx sy d rs ?nx ?ny True = (mv, x', y')"
          by (simp add: moveLoop_advance)
        from "1.IH"(2) [OF nb refl refl Some False r] obtain k :: nat where
          k: "x' = ?nx + int k * delta_dx d" "y' = ?ny + int k * delta_dy d" "mv = True"
            "k > 0 \<longrightarrow> inRange (board_size b) x' y'"
          by auto
        with not_blocked_inRange [OF nb] have "inRange (board_size b) x' y'"
          by (cases "k = 0") auto
        with k show ?thesis by blast
      qed
    qed
    then obtain k :: nat where k: "x' = ?nx + int k * delta_dx d" "y' = ?ny + int k * delta_dy d"
      "mv = True" "inRange (board_size b) x' y'" by blast
    have "x' = x + int (Suc k) * delta_dx d" "y' = y + int (Suc k) * delta_dy d"
      by (simp_all add: k algebra_simps)
    with k(3,4) show ?thesis
      by (intro exI [where x = "Suc k"]) simp
  qed
qed


lemma moveInDirection_unmoved:
  assumes "moveInDirection b x y d rs = (False, x', y')"
  shows "x' = x \<and> y' = y"
  using moveLoop_result [OF assms [unfolded moveInDirection_def]] by auto




lemma simLoop_unmoved:
  "n < 100 \<Longrightarrow> moveInDirection b x y d rs = (False, x', y') \<Longrightarrow>
   simLoop b rob rs x y d segs visited n = (x, y, segs)"
  by (subst simLoop.simps) simp

lemma simLoop_plain:
  "n < 100 \<Longrightarrow> moveInDirection b x y d rs = (True, x', y') \<Longrightarrow>
   getCell b x' y' = Some c \<Longrightarrow> cell_prism c = None \<Longrightarrow>
   simLoop b rob rs x y d segs visited n =
     (x', y', segs @ [\<lparr>seg_from = (x, y, d), seg_to = (x', y'), seg_direction = d\<rparr>])"
  by (subst simLoop.simps) simp

lemma simLoop_same_colour:
  "n < 100 \<Longrightarrow> moveInDirection b x y d rs = (True, x', y') \<Longrightarrow>
   getCell b x' y' = Some c \<Longrightarrow> cell_prism c = Some p \<Longrightarrow> robot_color rob = prism_color p \<Longrightarrow>
   simLoop b rob rs x y d segs visited n =
     (x', y', segs @ [\<lparr>seg_from = (x, y, d), seg_to = (x', y'), seg_direction = d\<rparr>])"
  by (subst simLoop.simps) (simp add: refract_def)

lemma simLoop_turn:
  "n < 100 \<Longrightarrow> moveInDirection b x y d rs = (True, x', y') \<Longrightarrow>
   getCell b x' y' = Some c \<Longrightarrow> cell_prism c = Some p \<Longrightarrow>
   refract p d (robot_color rob) = nd \<Longrightarrow> nd \<noteq> d \<Longrightarrow> (x', y', nd) \<notin> set visited \<Longrightarrow>
   simLoop b rob rs x y d segs visited n =
     simLoop b rob rs x' y' nd
       (segs @ [\<lparr>seg_from = (x, y, d), seg_to = (x', y'), seg_direction = d\<rparr>])
       ((x', y', nd) # visited) (n + 1)"
  by (subst simLoop.simps) (simp add: Let_def)


lemma simLoop_offboard:
  "n < 100 \<Longrightarrow> moveInDirection b x y d rs = (True, x', y') \<Longrightarrow> getCell b x' y' = None \<Longrightarrow>
   simLoop b rob rs x y d segs visited n =
     (x', y', segs @ [\<lparr>seg_from = (x, y, d), seg_to = (x', y'), seg_direction = d\<rparr>])"
  by (subst simLoop.simps) simp




lemmas move_eval =
  moveInDirection_def moveLoop_advance moveLoop_blocked stepBlocked_def getCell_board_demo
  hasWallInDirection_def hasOtherRobot_def hasPrism_def board_demo(2,3,4) board_eval

lemma demo_yellow_segment:
  "moveInDirection board_demo 0 3 DRight [\<lparr>robot_color = Yellow, robot_x = 0, robot_y = 3\<rparr>] = (True, 3, 3)"
  by (simp add: move_eval)

lemma demo_down_segment:
  "moveInDirection board_demo 3 3 Down [\<lparr>robot_color = Red, robot_x = 0, robot_y = 3\<rparr>] = (True, 3, 15)"
  by (simp add: move_eval)

lemma demo_blocking_row:
  "moveInDirection board_demo 0 0 DRight
     [\<lparr>robot_color = Red, robot_x = 0, robot_y = 0\<rparr>, \<lparr>robot_color = Blue, robot_x = 5, robot_y = 0\<rparr>] = (True, 4, 0)"
  by (simp add: move_eval)

lemmas robots_eval = red_at_def yellow_at_def blue_at_def





lemma demo_prism_3_3:
  "getCell board_demo 3 3 = Some (cells board_demo (3, 3))"
  "cell_prism (cells board_demo (3, 3)) =
     Some \<lparr>prism_x = 3, prism_y = 3, prism_dir = Backslash, prism_color = Yellow\<rparr>"
  "getCell board_demo 3 15 = Some (cells board_demo (3, 15))"
  "cell_prism (cells board_demo (3, 15)) = None"
  by (simp_all add: getCell_board_demo board_demo(4) board_eval)



lemma demo_yellow_first:
  "moveInDirection board_demo 0 3 DRight [yellow_at 0 3] = (True, 3, 3)"
  by (simp add: move_eval robots_eval)

text \<open>
  C1, at the scenario of the specification. The yellow token at (0, 3) slides right into the
  yellow prism at (3, 3) of the assembled board. \<^verbatim>\<open>moveInDirection\<close> stops on every prism
  cell and \<^verbatim>\<open>simulateMove\<close> breaks its loop when \<^verbatim>\<open>refract\<close> returns the direction
  unchanged: the move ends on the prism cell, although the step from there to (4, 3) is
  not blocked.
\<close>

theorem same_colour_prism_stops_slide:
  "init config_demo catalogue_demo = Inr board_demo \<and>
   cell_prism (cells board_demo (3, 3)) =
     Some \<lparr>prism_x = 3, prism_y = 3, prism_dir = Backslash, prism_color = Yellow\<rparr> \<and>
   simulateMove board_demo (yellow_at 0 3) DRight [yellow_at 0 3] =
     \<lparr>moved = True, finalX = 3, finalY = 3,
      segments = [\<lparr>seg_from = (0, 3, DRight), seg_to = (3, 3), seg_direction = DRight\<rparr>]\<rparr> \<and>
   \<not> stepBlocked board_demo 3 3 DRight [yellow_at 0 3] 3 3"
proof -
  have "simLoop board_demo (yellow_at 0 3) [yellow_at 0 3] 0 3 DRight [] [] 0 =
      (3, 3, [] @ [\<lparr>seg_from = (0, 3, DRight), seg_to = (3, 3), seg_direction = DRight\<rparr>])"
    by (rule simLoop_same_colour [OF _ demo_yellow_first demo_prism_3_3(1,2)])
      (simp_all add: robots_eval)
  then have "simulateMove board_demo (yellow_at 0 3) DRight [yellow_at 0 3] =
     \<lparr>moved = True, finalX = 3, finalY = 3,
      segments = [\<lparr>seg_from = (0, 3, DRight), seg_to = (3, 3), seg_direction = DRight\<rparr>]\<rparr>"
    by (simp add: simulateMove_def robots_eval)
  moreover have "\<not> stepBlocked board_demo 3 3 DRight [yellow_at 0 3] 3 3"
    by (simp add: move_eval robots_eval)
  ultimately show ?thesis
    by (simp add: board_demo(1) demo_prism_3_3)
qed

theorem same_colour_prism_stops_slide_witness:
  "finalX (simulateMove board_demo (yellow_at 0 3) DRight [yellow_at 0 3]) = 3 \<and>
   finalY (simulateMove board_demo (yellow_at 0 3) DRight [yellow_at 0 3]) = 3 \<and>
   length (segments (simulateMove board_demo (yellow_at 0 3) DRight [yellow_at 0 3])) = 1"
  using same_colour_prism_stops_slide by simp

lemma delta_nonzero: "(sx + (int k + 1) * delta_dx d, sy + (int k + 1) * delta_dy d) \<noteq> (sx, sy)"
  by (cases d) auto

text \<open>
  In the first segment of a slide, which starts at the cell of the moving token, the four
  checks of \<^verbatim>\<open>moveInDirection\<close> are the four obstructions of the specification.
\<close>

lemma first_segment_blocking:
  assumes i: "i < length rs" and start: "robot_x (rs ! i) = sx" "robot_y (rs ! i) = sy"
    and ray: "x = sx + int k * delta_dx d" "y = sy + int k * delta_dy d"
  shows "stepBlocked b sx sy d rs x y = blockedBySpec b i d rs x y"
proof -
  let ?nx = "x + delta_dx d" and ?ny = "y + delta_dy d"
  have ne: "(?nx, ?ny) \<noteq> (sx, sy)"
    using delta_nonzero [of sx k d sy] by (simp add: ray algebra_simps)
  have "hasOtherRobot rs sx sy ?nx ?ny =
      list_ex (\<lambda>j. j \<noteq> i \<and> robot_x (rs ! j) = ?nx \<and> robot_y (rs ! j) = ?ny) [0..<length rs]"
  proof
    assume "hasOtherRobot rs sx sy ?nx ?ny"
    then obtain r where r: "r \<in> set rs" "robot_x r = ?nx" "robot_y r = ?ny"
      by (auto simp: hasOtherRobot_def list_ex_iff)
    then obtain j where j: "j < length rs" "rs ! j = r"
      by (auto simp: in_set_conv_nth)
    with r ne start have "j \<noteq> i" by auto
    with j r show "list_ex (\<lambda>j. j \<noteq> i \<and> robot_x (rs ! j) = ?nx \<and> robot_y (rs ! j) = ?ny) [0..<length rs]"
      by (auto simp: list_ex_iff)
  next
    assume "list_ex (\<lambda>j. j \<noteq> i \<and> robot_x (rs ! j) = ?nx \<and> robot_y (rs ! j) = ?ny) [0..<length rs]"
    then obtain j where j: "j < length rs" "robot_x (rs ! j) = ?nx" "robot_y (rs ! j) = ?ny"
      by (auto simp: list_ex_iff)
    with ne have "\<not> (robot_x (rs ! j) = sx \<and> robot_y (rs ! j) = sy)" by auto
    with j show "hasOtherRobot rs sx sy ?nx ?ny"
      unfolding hasOtherRobot_def list_ex_iff by (intro bexI [where x = "rs ! j"]) auto
  qed
  then show ?thesis
    by (auto simp: stepBlocked_def blockedBySpec_def Let_def inRange_def)
qed

text \<open>The blocking scenario of the specification: tokens at (0, 0) and (5, 0), the first slides right.\<close>

lemma demo_blocking_scenario:
  "moveInDirection board_demo 0 0 DRight [red_at 0 0, blue_at 5 0] = (True, 4, 0) \<and>
   simulateMove board_demo (red_at 0 0) DRight [red_at 0 0, blue_at 5 0] =
     \<lparr>moved = True, finalX = 4, finalY = 0,
      segments = [\<lparr>seg_from = (0, 0, DRight), seg_to = (4, 0), seg_direction = DRight\<rparr>]\<rparr>"
proof -
  have m: "moveInDirection board_demo 0 0 DRight [red_at 0 0, blue_at 5 0] = (True, 4, 0)"
    by (simp add: move_eval robots_eval)
  have c: "getCell board_demo 4 0 = Some (cells board_demo (4, 0))"
    "cell_prism (cells board_demo (4, 0)) = None"
    by (simp_all add: getCell_board_demo board_demo(4) board_eval)
  have "simLoop board_demo (red_at 0 0) [red_at 0 0, blue_at 5 0] 0 0 DRight [] [] 0 =
      (4, 0, [] @ [\<lparr>seg_from = (0, 0, DRight), seg_to = (4, 0), seg_direction = DRight\<rparr>])"
    by (rule simLoop_plain [OF _ m c]) simp
  then show ?thesis
    using m by (simp add: simulateMove_def robots_eval)
qed

lemma demo_loop_segments:
  "moveInDirection board_demo 0 10 DRight [red_at 0 10] = (True, 5, 10)"
  "moveInDirection board_demo 5 10 Down [red_at 0 10] = (True, 5, 13)"
  "moveInDirection board_demo 5 13 DLeft [red_at 0 10] = (True, 0, 13)"
  "moveInDirection board_demo 0 13 Up [red_at 0 10] = (True, 0, 11)"
  by (simp_all add: move_eval robots_eval)

lemma demo_loop_cells:
  "getCell board_demo 5 10 = Some (cells board_demo (5, 10))"
  "cell_prism (cells board_demo (5, 10)) =
     Some \<lparr>prism_x = 5, prism_y = 10, prism_dir = Backslash, prism_color = Blue\<rparr>"
  "getCell board_demo 5 13 = Some (cells board_demo (5, 13))"
  "cell_prism (cells board_demo (5, 13)) =
     Some \<lparr>prism_x = 5, prism_y = 13, prism_dir = Slash, prism_color = Blue\<rparr>"
  "getCell board_demo 0 13 = Some (cells board_demo (0, 13))"
  "cell_prism (cells board_demo (0, 13)) =
     Some \<lparr>prism_x = 0, prism_y = 13, prism_dir = Backslash, prism_color = Blue\<rparr>"
  "getCell board_demo 0 11 = Some (cells board_demo (0, 11))"
  "cell_prism (cells board_demo (0, 11)) = None"
  by (simp_all add: getCell_board_demo board_demo(4) board_eval)

text \<open>
  C4, after a refraction. The red token at (0, 10), alone on the assembled board, slides
  right and is turned by three prisms into the column of its own start. \<^verbatim>\<open>moveInDirection\<close>
  tells the moving token from the others by the start of the current segment, here the
  prism cell (0, 13), so the entry of the moving token itself in \<^verbatim>\<open>allRobots\<close>, still at
  (0, 10), blocks the step from (0, 11): the slide stops at (0, 11) although none of the
  four obstructions of the specification holds there.
\<close>

theorem token_blocked_by_own_start:
  "init config_demo catalogue_demo = Inr board_demo \<and>
   simulateMove board_demo (red_at 0 10) DRight [red_at 0 10] =
     \<lparr>moved = True, finalX = 0, finalY = 11,
      segments = [\<lparr>seg_from = (0, 10, DRight), seg_to = (5, 10), seg_direction = DRight\<rparr>,
                  \<lparr>seg_from = (5, 10, Down), seg_to = (5, 13), seg_direction = Down\<rparr>,
                  \<lparr>seg_from = (5, 13, DLeft), seg_to = (0, 13), seg_direction = DLeft\<rparr>,
                  \<lparr>seg_from = (0, 13, Up), seg_to = (0, 11), seg_direction = Up\<rparr>]\<rparr> \<and>
   stepBlocked board_demo 0 13 Up [red_at 0 10] 0 11 \<and>
   \<not> blockedBySpec board_demo 0 Up [red_at 0 10] 0 11"
proof -
  let ?r = "red_at 0 10"
  have t: "refract \<lparr>prism_x = 5, prism_y = 10, prism_dir = Backslash, prism_color = Blue\<rparr>
      DRight (robot_color ?r) = Down"
    "refract \<lparr>prism_x = 5, prism_y = 13, prism_dir = Slash, prism_color = Blue\<rparr>
      Down (robot_color ?r) = DLeft"
    "refract \<lparr>prism_x = 0, prism_y = 13, prism_dir = Backslash, prism_color = Blue\<rparr>
      DLeft (robot_color ?r) = Up"
    by (simp_all add: refract_def calculateRefraction_def robots_eval)
  let ?s1 = "\<lparr>seg_from = (0, 10, DRight), seg_to = (5, 10), seg_direction = DRight\<rparr>"
  let ?s2 = "\<lparr>seg_from = (5, 10, Down), seg_to = (5, 13), seg_direction = Down\<rparr>"
  let ?s3 = "\<lparr>seg_from = (5, 13, DLeft), seg_to = (0, 13), seg_direction = DLeft\<rparr>"
  let ?s4 = "\<lparr>seg_from = (0, 13, Up), seg_to = (0, 11), seg_direction = Up\<rparr>"
  have "simLoop board_demo ?r [?r] 0 10 DRight [] [] 0 =
      simLoop board_demo ?r [?r] 5 10 Down ([] @ [?s1]) ((5, 10, Down) # []) (0 + 1)"
    by (rule simLoop_turn [OF _ demo_loop_segments(1) demo_loop_cells(1,2) t(1)]) simp_all
  also have "\<dots> = simLoop board_demo ?r [?r] 5 13 DLeft (([] @ [?s1]) @ [?s2])
      ((5, 13, DLeft) # (5, 10, Down) # []) (0 + 1 + 1)"
    by (rule simLoop_turn [OF _ demo_loop_segments(2) demo_loop_cells(3,4) t(2)]) simp_all
  also have "\<dots> = simLoop board_demo ?r [?r] 0 13 Up ((([] @ [?s1]) @ [?s2]) @ [?s3])
      ((0, 13, Up) # (5, 13, DLeft) # (5, 10, Down) # []) (0 + 1 + 1 + 1)"
    by (rule simLoop_turn [OF _ demo_loop_segments(3) demo_loop_cells(5,6) t(3)]) simp_all
  also have "\<dots> = (0, 11, ((([] @ [?s1]) @ [?s2]) @ [?s3]) @ [?s4])"
    by (rule simLoop_plain [OF _ demo_loop_segments(4) demo_loop_cells(7,8)]) simp
  finally have "simulateMove board_demo ?r DRight [?r] =
     \<lparr>moved = True, finalX = 0, finalY = 11, segments = [?s1, ?s2, ?s3, ?s4]\<rparr>"
    by (simp add: simulateMove_def robots_eval)
  moreover have "stepBlocked board_demo 0 13 Up [?r] 0 11"
    by (simp add: move_eval robots_eval)
  moreover have "\<not> blockedBySpec board_demo 0 Up [?r] 0 11"
    by (simp add: blockedBySpec_def move_eval robots_eval)
  ultimately show ?thesis
    by (simp add: board_demo(1))
qed

theorem token_blocked_by_own_start_witness:
  "finalX (simulateMove board_demo (red_at 0 10) DRight [red_at 0 10]) = 0 \<and>
   finalY (simulateMove board_demo (red_at 0 10) DRight [red_at 0 10]) = 11 \<and>
   length (segments (simulateMove board_demo (red_at 0 10) DRight [red_at 0 10])) = 4"
  using token_blocked_by_own_start by simp

section \<open>PathFinder: properties of the search\<close>

lemma tryMoves_unmoved:
  "\<not> moved (moveOf b (st_robots cur) m) \<Longrightarrow>
   tryMoves b tc tp el cur n (m # ms) q v = tryMoves b tc tp el cur n ms q v"
  by (cases m) (simp add: moveOf_def Let_def)

lemma tryMoves_throw:
  "moved (moveOf b (st_robots cur) m) \<Longrightarrow>
   find (\<lambda>r. robot_color r = tc) (newRobotsOf b (st_robots cur) m) = None \<Longrightarrow>
   tryMoves b tc tp el cur n (m # ms) q v = Throw"
  by (cases m) (simp add: moveOf_def newRobotsOf_def Let_def)

lemma tryMoves_goal_rejected:
  "moved (moveOf b (st_robots cur) m) \<Longrightarrow>
   targetAtGoal tc tp (newRobotsOf b (st_robots cur) m) \<Longrightarrow> st_steps cur + 1 < 2 \<Longrightarrow>
   tryMoves b tc tp el cur n (m # ms) q v = tryMoves b tc tp el cur n ms q v"
  by (cases m)
    (auto simp: moveOf_def newRobotsOf_def targetAtGoal_def Let_def split: option.splits)

lemma tryMoves_goal_accepted:
  "moved (moveOf b (st_robots cur) m) \<Longrightarrow>
   targetAtGoal tc tp (newRobotsOf b (st_robots cur) m) \<Longrightarrow> \<not> st_steps cur + 1 < 2 \<Longrightarrow>
   tryMoves b tc tp el cur n (m # ms) q v =
     Return (succeeded (st_steps cur + 1) (st_path (nextState b cur m)) n el)"
  by (cases m)
    (auto simp: moveOf_def newRobotsOf_def targetAtGoal_def nextState_def Let_def
      split: option.splits)

lemma tryMoves_new:
  "moved (moveOf b (st_robots cur) m) \<Longrightarrow>
   find (\<lambda>r. robot_color r = tc) (newRobotsOf b (st_robots cur) m) \<noteq> None \<Longrightarrow>
   \<not> targetAtGoal tc tp (newRobotsOf b (st_robots cur) m) \<Longrightarrow>
   stateToString (newRobotsOf b (st_robots cur) m) \<notin> set v \<Longrightarrow>
   tryMoves b tc tp el cur n (m # ms) q v =
     tryMoves b tc tp el cur n ms (q @ [nextState b cur m])
       (stateToString (newRobotsOf b (st_robots cur) m) # v)"
  by (cases m)
    (auto simp: moveOf_def newRobotsOf_def targetAtGoal_def nextState_def Let_def
      split: option.splits)

lemma tryMoves_seen:
  "moved (moveOf b (st_robots cur) m) \<Longrightarrow>
   find (\<lambda>r. robot_color r = tc) (newRobotsOf b (st_robots cur) m) \<noteq> None \<Longrightarrow>
   \<not> targetAtGoal tc tp (newRobotsOf b (st_robots cur) m) \<Longrightarrow>
   stateToString (newRobotsOf b (st_robots cur) m) \<in> set v \<Longrightarrow>
   tryMoves b tc tp el cur n (m # ms) q v = tryMoves b tc tp el cur n ms q v"
  by (cases m)
    (auto simp: moveOf_def newRobotsOf_def targetAtGoal_def nextState_def Let_def
      split: option.splits)

lemma colors_newRobotsOf:
  "fst m < length rs \<Longrightarrow> map robot_color (newRobotsOf b rs m) = map robot_color rs"
  by (simp add: newRobotsOf_def map_update list_update_same_conv)

lemma find_color_found:
  "tc \<in> set (map robot_color rs) \<Longrightarrow> find (\<lambda>r. robot_color r = tc) rs \<noteq> None"
  by (auto simp: find_None_iff)

lemma movesResult_ConsI:
  assumes "movesResult b tc tp el cur n ms q v ex"
    and "moved (moveOf b (st_robots cur) m) \<Longrightarrow>
         (if targetAtGoal tc tp (newRobotsOf b (st_robots cur) m)
          then st_steps cur + 1 < 2
          else stateToString (newRobotsOf b (st_robots cur) m) \<in> set v)"
  shows "movesResult b tc tp el cur n (m # ms) q v ex"
proof (cases ex)
  case Throw
  with assms(1) show ?thesis by (simp add: movesResult_def)
next
  case (Return r)
  with assms(1) show ?thesis by (auto simp: movesResult_def)
next
  case (Continue q' v')
  with assms(1) obtain new where new: "q' = q @ new"
    "set v' = set v \<union> (\<lambda>s. stateToString (st_robots s)) ` set new"
    "\<forall>s\<in>set new. \<exists>m\<in>set ms. s = nextState b cur m \<and>
                moved (moveOf b (st_robots cur) m) \<and>
                \<not> targetAtGoal tc tp (st_robots s) \<and>
                stateToString (st_robots s) \<notin> set v"
    "\<forall>m\<in>set ms. moved (moveOf b (st_robots cur) m) \<longrightarrow>
                (if targetAtGoal tc tp (newRobotsOf b (st_robots cur) m)
                 then st_steps cur + 1 < 2
                 else stateToString (newRobotsOf b (st_robots cur) m) \<in> set v')"
    by (auto simp: movesResult_def)
  have a: "\<forall>s\<in>set new. \<exists>m'\<in>set (m # ms). s = nextState b cur m' \<and>
                moved (moveOf b (st_robots cur) m') \<and>
                \<not> targetAtGoal tc tp (st_robots s) \<and>
                stateToString (st_robots s) \<notin> set v"
    using new(3) by auto
  have c: "\<forall>m'\<in>set (m # ms). moved (moveOf b (st_robots cur) m') \<longrightarrow>
                (if targetAtGoal tc tp (newRobotsOf b (st_robots cur) m')
                 then st_steps cur + 1 < 2
                 else stateToString (newRobotsOf b (st_robots cur) m') \<in> set v')"
    using new(4) assms(2) new(2) by auto
  show ?thesis
    unfolding movesResult_def Continue loopExit.case
    using new(1,2) a c by blast
qed

lemma tryMoves_movesResult:
  assumes cols: "tc \<in> set (map robot_color (st_robots cur))"
    and idx: "\<forall>m\<in>set ms. fst m < length (st_robots cur)"
  shows "movesResult b tc tp el cur n ms q v (tryMoves b tc tp el cur n ms q v)"
  using idx
proof (induction ms arbitrary: q v)
  case Nil
  show ?case by (simp add: movesResult_def)
next
  case (Cons m ms)
  let ?rs = "st_robots cur"
  from Cons.prems have i: "fst m < length ?rs" and idx': "\<forall>m\<in>set ms. fst m < length ?rs"
    by simp_all
  note IH = Cons.IH [OF idx']
  have found: "find (\<lambda>r. robot_color r = tc) (newRobotsOf b ?rs m) \<noteq> None"
    by (rule find_color_found) (use cols in \<open>simp add: colors_newRobotsOf [OF i]\<close>)
  show ?case
  proof (cases "moved (moveOf b ?rs m)")
    case False
    show ?thesis
      unfolding tryMoves_unmoved [OF False]
      by (rule movesResult_ConsI [OF IH]) (simp add: False)
  next
    case mv: True
    show ?thesis
    proof (cases "targetAtGoal tc tp (newRobotsOf b ?rs m)")
      case goal: True
      show ?thesis
      proof (cases "st_steps cur + 1 < 2")
        case True
        show ?thesis
          unfolding tryMoves_goal_rejected [OF mv goal True]
          by (rule movesResult_ConsI [OF IH]) (use True in \<open>simp add: goal\<close>)
      next
        case False
        show ?thesis
          unfolding tryMoves_goal_accepted [OF mv goal False]
          using mv goal False by (simp add: movesResult_def)
      qed
    next
      case ng: False
      show ?thesis
      proof (cases "stateToString (newRobotsOf b ?rs m) \<in> set v")
        case True
        show ?thesis
          unfolding tryMoves_seen [OF mv found ng True]
          by (rule movesResult_ConsI [OF IH]) (simp add: ng True)
      next
        case nv: False
        let ?s = "nextState b cur m"
        let ?k = "stateToString (newRobotsOf b ?rs m)"
        let ?ex = "tryMoves b tc tp el cur n ms (q @ [?s]) (?k # v)"
        have rs: "st_robots ?s = newRobotsOf b ?rs m" by (simp add: nextState_def)
        have ih: "movesResult b tc tp el cur n ms (q @ [?s]) (?k # v) ?ex" by (rule IH)
        have "movesResult b tc tp el cur n (m # ms) q v ?ex"
        proof (cases ?ex)
          case Throw
          with ih show ?thesis by (simp add: movesResult_def)
        next
          case (Return r)
          with ih show ?thesis by (auto simp: movesResult_def)
        next
          case (Continue q' v')
          with ih obtain new where new: "q' = (q @ [?s]) @ new"
            "set v' = set (?k # v) \<union> (\<lambda>s. stateToString (st_robots s)) ` set new"
            "\<forall>s\<in>set new. \<exists>m\<in>set ms. s = nextState b cur m \<and>
                moved (moveOf b ?rs m) \<and>
                \<not> targetAtGoal tc tp (st_robots s) \<and>
                stateToString (st_robots s) \<notin> set (?k # v)"
            "\<forall>m\<in>set ms. moved (moveOf b ?rs m) \<longrightarrow>
                (if targetAtGoal tc tp (newRobotsOf b ?rs m)
                 then st_steps cur + 1 < 2
                 else stateToString (newRobotsOf b ?rs m) \<in> set v')"
            by (auto simp: movesResult_def)
          have 1: "q' = q @ (?s # new)" using new(1) by simp
          have 2: "set v' = set v \<union> (\<lambda>s. stateToString (st_robots s)) ` set (?s # new)"
            using new(2) by (auto simp: rs)
          have 3: "\<forall>s\<in>set (?s # new). \<exists>m'\<in>set (m # ms). s = nextState b cur m' \<and>
                moved (moveOf b ?rs m') \<and>
                \<not> targetAtGoal tc tp (st_robots s) \<and>
                stateToString (st_robots s) \<notin> set v"
            using new(3) mv ng nv by (auto simp: rs)
          have 4: "\<forall>m'\<in>set (m # ms). moved (moveOf b ?rs m') \<longrightarrow>
                (if targetAtGoal tc tp (newRobotsOf b ?rs m')
                 then st_steps cur + 1 < 2
                 else stateToString (newRobotsOf b ?rs m') \<in> set v')"
            using new(4) ng new(2) by auto
          show ?thesis
            unfolding movesResult_def Continue loopExit.case
            using 1 2 3 4 by blast
        qed
        then show ?thesis
          unfolding tryMoves_new [OF mv found ng nv] .
      qed
    qed
  qed
qed

lemma bfsOutcome_succeeded: "2 \<le> k \<Longrightarrow> bfsOutcome el (succeeded k p n el)"
  unfolding bfsOutcome_def by blast

lemma bfsLoop_empty:
  "bfsLoop b tc tp el [] v n = Inr (failedWith NoPathFound n el)"
  by (subst bfsLoop.simps) simp

lemma bfsLoop_exhausted:
  "n > maxIterations \<Longrightarrow>
   bfsLoop b tc tp el (cur # rest) v n = Inr (failedWith SearchSpaceTooLarge n el)"
  by (subst bfsLoop.simps) simp

lemma bfsLoop_step:
  "\<not> n > maxIterations \<Longrightarrow>
   bfsLoop b tc tp el (cur # rest) v n =
     (case tryMoves b tc tp el cur (n + 1) (allMoves (st_robots cur)) rest v of
        Throw \<Rightarrow> Inl TypeError
      | Return r \<Rightarrow> Inr r
      | Continue q' v' \<Rightarrow> bfsLoop b tc tp el q' v' (n + 1))"
  by (subst bfsLoop.simps) simp

lemma set_directions: "set directions = UNIV"
proof -
  have "d \<in> set directions" for d by (cases d) (simp_all add: directions_def)
  then show ?thesis by auto
qed

lemma set_allMoves: "set (allMoves rs) = {m. fst m < length rs}"
  by (auto simp: allMoves_def set_directions)

lemma colors_nextState:
  "fst m < length (st_robots cur) \<Longrightarrow>
   map robot_color (st_robots (nextState b cur m)) = map robot_color (st_robots cur)"
  by (simp add: nextState_def colors_newRobotsOf)

lemma movesResult_allMoves:
  assumes "tc \<in> set (map robot_color (st_robots cur))"
  shows "movesResult b tc tp el cur n (allMoves (st_robots cur)) q v
           (tryMoves b tc tp el cur n (allMoves (st_robots cur)) q v)"
  by (rule tryMoves_movesResult [OF assms]) (simp add: set_allMoves)

lemma bfsLoop_outcome:
  "\<forall>s\<in>set queue. map robot_color (st_robots s) = cols \<Longrightarrow> tc \<in> set cols \<Longrightarrow>
   \<exists>r. bfsLoop b tc tp el queue visited n = Inr r \<and> bfsOutcome el r"
proof (induction b tc tp el queue visited n rule: bfsLoop.induct)
  case (1 b tc tp el queue visited n)
  show ?case
  proof (cases queue)
    case Nil
    then show ?thesis by (auto simp: bfsLoop_empty bfsOutcome_def)
  next
    case (Cons cur rest)
    show ?thesis
    proof (cases "n > maxIterations")
      case True
      then show ?thesis by (auto simp: Cons bfsLoop_exhausted bfsOutcome_def)
    next
      case False
      let ?ex = "tryMoves b tc tp el cur (n + 1) (allMoves (st_robots cur)) rest visited"
      from "1.prems" Cons have cur: "map robot_color (st_robots cur) = cols"
        and rest: "\<forall>s\<in>set rest. map robot_color (st_robots s) = cols" by simp_all
      from cur "1.prems"(2) have tc: "tc \<in> set (map robot_color (st_robots cur))" by simp
      note mr = movesResult_allMoves [OF tc, of b tp el "n + 1" rest visited]
      show ?thesis
      proof (cases ?ex)
        case Throw
        with mr show ?thesis by (simp add: movesResult_def)
      next
        case (Return r)
        with mr obtain m where "\<not> st_steps cur + 1 < 2"
          "r = succeeded (st_steps cur + 1) (st_path (nextState b cur m)) (n + 1) el"
          by (auto simp: movesResult_def)
        then have "bfsOutcome el r" by (simp add: bfsOutcome_succeeded)
        with Return False show ?thesis by (simp add: Cons bfsLoop_step)
      next
        case (Continue q' v')
        with mr obtain new where new: "q' = rest @ new"
          "\<forall>s\<in>set new. \<exists>m\<in>set (allMoves (st_robots cur)). s = nextState b cur m"
          by (auto simp: movesResult_def) blast
        have "\<forall>s\<in>set q'. map robot_color (st_robots s) = cols"
          using new rest cur by (auto simp: set_allMoves colors_nextState)
        from "1.IH" [OF Cons False Continue this "1.prems"(2)] Continue False show ?thesis
          by (simp add: Cons bfsLoop_step)
      qed
    qed
  qed
qed

lemma simulateMove_plainMove:
  assumes "noPrismAfter b rob d rs"
  shows "simulateMove b rob d rs = plainMove b rob d rs"
proof -
  obtain mv x' y' where m: "moveInDirection b (robot_x rob) (robot_y rob) d rs = (mv, x', y')"
    by (cases "moveInDirection b (robot_x rob) (robot_y rob) d rs") auto
  show ?thesis
  proof (cases mv)
    case False
    with m have m': "moveInDirection b (robot_x rob) (robot_y rob) d rs = (False, x', y')" by simp
    from moveInDirection_unmoved [OF m'] simLoop_unmoved [OF _ m'] show ?thesis
      by (simp add: simulateMove_def plainMove_def m')
  next
    case True
    with m have m': "moveInDirection b (robot_x rob) (robot_y rob) d rs = (True, x', y')" by simp
    show ?thesis
    proof (cases "getCell b x' y'")
      case None
      from simLoop_offboard [OF _ m' None] show ?thesis
        by (simp add: simulateMove_def plainMove_def m')
    next
      case (Some c)
      with assms m' have "cell_prism c = None" by (simp add: noPrismAfter_def)
      from simLoop_plain [OF _ m' Some this] show ?thesis
        by (simp add: simulateMove_def plainMove_def m')
    qed
  qed
qed

lemmas search_eval =
  findPath_def bfsSearch_def bfsLoop_step bfsLoop_empty maxIterations_def allMoves_def
  directions_def stateToString_def robotKey_def simulateMove_plainMove noPrismAfter_def
  plainMove_def mkAction_def isValidPosition_def succeeded_def failed_def failedWith_def
  move_eval robots_eval

lemma demo_search:
  "\<exists>p. findPath board_demo [red_at 15 15] Red (13, 15) 0 7 = Inr (succeeded 4 p 4 7)"
  by (simp add: search_eval)

lemma bfsSearch_outcome:
  assumes "targetRobot \<in> set robots"
  shows "\<exists>r. bfsSearch b robots targetRobot tp el = Inr r \<and> bfsOutcome el r"
  unfolding bfsSearch_def
  by (rule bfsLoop_outcome [where cols = "map robot_color robots"]) (use assms in auto)

text \<open>
  The returns of \<^verbatim>\<open>findPath\<close>, in the order of its tests. Every call returns a result
  object and throws nothing. An unknown colour gives the failure \<open>RobotNotFound\<close>; then an
  invalid target position gives the failure \<open>TargetInvalid\<close>, also when the target robot
  stands on it; both carry a message and neither the number of explored states nor the
  time. Then a target robot on the target position gives the success with zero steps; and
  every other call ends in \<^verbatim>\<open>bfsSearch\<close> with the failure \<open>NoPathFound\<close> or
  \<open>SearchSpaceTooLarge\<close>, both with the number of explored states and the time, or with a
  success of at least two steps.
\<close>

lemma findPath_outcomes:
  "\<exists>r. findPath b robots c tp startTime now = Inr r \<and>
     (find (\<lambda>r. robot_color r = c) robots = None \<longrightarrow>
        r = failed (RobotNotFound c) \<and> statesExplored r = None \<and> time r = None) \<and>
     (\<forall>tr. find (\<lambda>r. robot_color r = c) robots = Some tr \<longrightarrow>
        (\<not> isValidPosition b (fst tp) (snd tp) \<longrightarrow>
           r = failed TargetInvalid \<and> statesExplored r = None \<and> time r = None) \<and>
        (isValidPosition b (fst tp) (snd tp) \<and> robot_x tr = fst tp \<and> robot_y tr = snd tp \<longrightarrow>
           r = succeeded 0 [] 0 (now - startTime)) \<and>
        (isValidPosition b (fst tp) (snd tp) \<and> \<not> (robot_x tr = fst tp \<and> robot_y tr = snd tp) \<longrightarrow>
           (\<exists>n. r = failedWith NoPathFound n (now - startTime) \<and>
                statesExplored r = Some n \<and> time r = Some (now - startTime)) \<or>
           (\<exists>n. r = failedWith SearchSpaceTooLarge n (now - startTime) \<and>
                statesExplored r = Some n \<and> time r = Some (now - startTime)) \<or>
           (\<exists>k p n. 2 \<le> k \<and> r = succeeded k p n (now - startTime))))"
proof (cases "find (\<lambda>r. robot_color r = c) robots")
  case None
  then show ?thesis by (simp add: findPath_def failed_def)
next
  case (Some tr)
  then have tr: "tr \<in> set robots" by (auto simp: find_Some_iff in_set_conv_nth)
  show ?thesis
  proof (cases "isValidPosition b (fst tp) (snd tp)")
    case False
    with Some show ?thesis by (simp add: findPath_def failed_def)
  next
    case valid: True
    show ?thesis
    proof (cases "robot_x tr = fst tp \<and> robot_y tr = snd tp")
      case True
      with Some valid show ?thesis by (simp add: findPath_def)
    next
      case False
      from bfsSearch_outcome [OF tr, of b tp "now - startTime"] obtain r where
        r: "bfsSearch b robots tr tp (now - startTime) = Inr r" "bfsOutcome (now - startTime) r"
        by blast
      from r(2) have "(\<exists>n. r = failedWith NoPathFound n (now - startTime) \<and>
                statesExplored r = Some n \<and> time r = Some (now - startTime)) \<or>
           (\<exists>n. r = failedWith SearchSpaceTooLarge n (now - startTime) \<and>
                statesExplored r = Some n \<and> time r = Some (now - startTime)) \<or>
           (\<exists>k p n. 2 \<le> k \<and> r = succeeded k p n (now - startTime))"
        unfolding bfsOutcome_def by (auto simp: failedWith_def)
      then have d: "(\<exists>n. r = failedWith NoPathFound n (now - startTime) \<and>
                statesExplored r = Some n \<and> time r = Some (now - startTime)) \<or>
           (\<exists>n. r = failedWith SearchSpaceTooLarge n (now - startTime) \<and>
                statesExplored r = Some n \<and> time r = Some (now - startTime)) \<or>
           (\<exists>k p n. 2 \<le> k \<and> r = succeeded k p n (now - startTime))" .
      from Some valid False r(1) have e: "findPath b robots c tp startTime now = Inr r"
        by (auto simp add: findPath_def)
      show ?thesis
        by (rule exI [where x = r]) (use Some valid False e d in \<open>simp (no_asm_simp), blast\<close>)
    qed
  qed
qed

text \<open>
  C8, on the assembled board. \<^verbatim>\<open>findPath\<close> returns its two own failures without the
  number of explored states and without the time: with no yellow robot among the robots,
  and with a target position in the central area. The success with zero steps, which the
  same function returns, has both, as the results of \<^verbatim>\<open>bfsSearch\<close> have.
\<close>

theorem findPath_failures_without_diagnostics:
  "init config_demo catalogue_demo = Inr board_demo \<and>
   findPath board_demo [red_at 0 0] Yellow (1, 1) 0 7 = Inr (failed (RobotNotFound Yellow)) \<and>
   findPath board_demo [red_at 0 0] Red (7, 8) 0 7 = Inr (failed TargetInvalid) \<and>
   statesExplored (failed (RobotNotFound Yellow)) = None \<and>
   time (failed (RobotNotFound Yellow)) = None \<and>
   statesExplored (failed TargetInvalid) = None \<and> time (failed TargetInvalid) = None \<and>
   findPath board_demo [red_at 0 0] Red (0, 0) 0 7 = Inr (succeeded 0 [] 0 7) \<and>
   statesExplored (succeeded 0 [] 0 7) = Some 0 \<and> time (succeeded 0 [] 0 7) = Some 7"
  by (simp add: findPath_def robots_eval failed_def succeeded_def isValidPosition_def
      board_demo(1,2) isInCentralArea_def blocked_x_def blocked_y_def)

theorem findPath_failures_without_diagnostics_witness:
  "(\<exists>r. findPath board_demo [red_at 0 0] Yellow (1, 1) 0 7 = Inr r \<and> \<not> success r \<and>
      statesExplored r = None \<and> time r = None) \<and>
   (\<exists>r. findPath board_demo [red_at 0 0] Red (7, 8) 0 7 = Inr r \<and> \<not> success r \<and>
      statesExplored r = None \<and> time r = None)"
  using findPath_failures_without_diagnostics by (simp add: failed_def)

lemma findPath_outcomes_demo:
  "findPath board_demo [red_at 0 0] Yellow (1, 1) 0 7 = Inr (failed (RobotNotFound Yellow)) \<and>
   findPath board_demo [red_at 0 0] Red (0, 0) 0 7 = Inr (succeeded 0 [] 0 7) \<and>
   (\<exists>p. findPath board_demo [red_at 15 15] Red (13, 15) 0 7 = Inr (succeeded 4 p 4 7))"
proof -
  have n: "find (\<lambda>r. robot_color r = Yellow) [red_at 0 0] = None"
    by (simp add: robots_eval)
  have s: "find (\<lambda>r. robot_color r = Red) [red_at 0 0] = Some (red_at 0 0)"
    "isValidPosition board_demo (fst (0, 0)) (snd (0, 0))"
    "robot_x (red_at 0 0) = fst (0, 0 :: int)" "robot_y (red_at 0 0) = snd (0 :: int, 0)"
    by (simp_all add: robots_eval isValidPosition_def board_demo(2) isInCentralArea_def
        blocked_x_def blocked_y_def)
  from findPath_outcomes [of board_demo "[red_at 0 0]" Yellow "(1, 1)" 0 7] n
  have 1: "findPath board_demo [red_at 0 0] Yellow (1, 1) 0 7 = Inr (failed (RobotNotFound Yellow))"
    by auto
  from findPath_outcomes [of board_demo "[red_at 0 0]" Red "(0, 0)" 0 7] s
  have 2: "findPath board_demo [red_at 0 0] Red (0, 0) 0 7 = Inr (succeeded 0 [] 0 7)"
    by auto
  from 1 2 demo_search show ?thesis by simp
qed

lemma bfsSearch_success:
  assumes "targetRobot \<in> set robots"
  shows "\<exists>r. bfsSearch b robots targetRobot tp el = Inr r \<and>
           (success r \<longrightarrow> (\<exists>k p n. 2 \<le> k \<and> r = succeeded k p n el))"
proof -
  from bfsSearch_outcome [OF assms] obtain r where
    r: "bfsSearch b robots targetRobot tp el = Inr r" "bfsOutcome el r" by blast
  from r(2) have "success r \<longrightarrow> (\<exists>k p n. 2 \<le> k \<and> r = succeeded k p n el)"
    by (auto simp: bfsOutcome_def failedWith_def)
  with r(1) show ?thesis by blast
qed

text \<open>
  C2. In the body of the loops of \<^verbatim>\<open>bfsSearch\<close>, a move that displaces its token and leaves
  the target robot on the target position is handled by the number of steps alone: when the
  new number of steps is below 2 the move is skipped (the queue and the visited set stay as
  they are, the loops go on with the moves that remain), otherwise \<^verbatim>\<open>bfsSearch\<close> returns
  the success with that number of steps and the path extended by the move. So every success
  that \<^verbatim>\<open>bfsSearch\<close> returns has at least two steps.
\<close>

theorem goal_accepted_from_two_steps:
  "(moved (moveOf b (st_robots cur) m) \<and> targetAtGoal tc tp (newRobotsOf b (st_robots cur) m) \<longrightarrow>
      tryMoves b tc tp el cur n (m # ms) q v =
        (if st_steps cur + 1 < 2 then tryMoves b tc tp el cur n ms q v
         else Return (succeeded (st_steps cur + 1)
                (st_path cur @ [mkAction (st_robots cur ! fst m) (snd m) (moveOf b (st_robots cur) m)])
                n el))) \<and>
   (targetRobot \<in> set robots \<longrightarrow>
      (\<exists>r. bfsSearch b robots targetRobot tp el = Inr r \<and>
         (success r \<longrightarrow> (\<exists>k p n. 2 \<le> k \<and> r = succeeded k p n el))))"
  using tryMoves_goal_rejected [of b cur m tc tp el n ms q v]
    tryMoves_goal_accepted [of b cur m tc tp el n ms q v]
    bfsSearch_success [of targetRobot robots b tp el]
  by (simp add: nextState_def)

theorem goal_accepted_from_two_steps_witness:
  "tryMoves board_demo Red (13, 15) 7 \<lparr>st_robots = [red_at 15 15], st_path = [], st_steps = 0\<rparr> 1
     [(0, DLeft)] [] [] = Continue [] [] \<and>
   (\<exists>p. tryMoves board_demo Red (13, 15) 7 \<lparr>st_robots = [red_at 14 15], st_path = [], st_steps = 3\<rparr> 4
     [(0, DLeft)] [] [] = Return (succeeded 4 p 4 7)) \<and>
   (\<exists>r. bfsSearch board_demo [red_at 15 15] (red_at 15 15) (13, 15) 7 = Inr r \<and>
      (success r \<longrightarrow> (\<exists>k p n. 2 \<le> k \<and> r = succeeded k p n 7)))"
proof -
  let ?c0 = "\<lparr>st_robots = [red_at 15 15], st_path = [], st_steps = 0\<rparr>"
  let ?c3 = "\<lparr>st_robots = [red_at 14 15], st_path = [], st_steps = 3\<rparr>"
  have a: "moved (moveOf board_demo (st_robots ?c0) (0, DLeft))"
    "targetAtGoal Red (13, 15) (newRobotsOf board_demo (st_robots ?c0) (0, DLeft))"
    by (simp_all add: moveOf_def newRobotsOf_def targetAtGoal_def search_eval)
  have b: "moved (moveOf board_demo (st_robots ?c3) (0, DLeft))"
    "targetAtGoal Red (13, 15) (newRobotsOf board_demo (st_robots ?c3) (0, DLeft))"
    by (simp_all add: moveOf_def newRobotsOf_def targetAtGoal_def search_eval)
  from goal_accepted_from_two_steps [of board_demo ?c0 "(0, DLeft)" Red "(13, 15)" 7 1 "[]" "[]" "[]"
      "red_at 15 15" "[red_at 15 15]"] a
  have 1: "tryMoves board_demo Red (13, 15) 7 ?c0 1 [(0, DLeft)] [] [] = Continue [] []"
    and 3: "\<exists>r. bfsSearch board_demo [red_at 15 15] (red_at 15 15) (13, 15) 7 = Inr r \<and>
      (success r \<longrightarrow> (\<exists>k p n. 2 \<le> k \<and> r = succeeded k p n 7))"
    by (simp_all del: tryMoves.simps(2))
  from goal_accepted_from_two_steps [of board_demo ?c3 "(0, DLeft)" Red "(13, 15)" 7 4 "[]" "[]" "[]"
      "red_at 15 15" "[red_at 15 15]"] b
  have 2: "\<exists>p. tryMoves board_demo Red (13, 15) 7 ?c3 4 [(0, DLeft)] [] [] = Return (succeeded 4 p 4 7)"
    by (simp del: tryMoves.simps(2)) blast
  from 1 2 3 show ?thesis by blast
qed

text \<open>
  C3 on the assembled board, one red robot on \<open>(15, 15)\<close> and the target position
  \<open>(13, 15)\<close>: \<^verbatim>\<open>findPath\<close> returns a success with four steps, and the three actions up, down,
  left are a solution. Each of them displaces the robot, and the robot stands on the target
  position after the third and not before.
\<close>

theorem search_misses_shorter_solution:
  "(\<exists>p. findPath board_demo [red_at 15 15] Red (13, 15) 0 7 = Inr (succeeded 4 p 4 7)) \<and>
   isSolution board_demo [red_at 15 15] Red (13, 15) [(0, Up), (0, Down), (0, DLeft)] \<and>
   runActions board_demo [red_at 15 15] [(0, Up)] = Some [red_at 15 14] \<and>
   runActions board_demo [red_at 15 15] [(0, Up), (0, Down)] = Some [red_at 15 15] \<and>
   runActions board_demo [red_at 15 15] [(0, Up), (0, Down), (0, DLeft)] = Some [red_at 13 15]"
proof -
  have "runActions board_demo [red_at 15 15] [(0, Up)] = Some [red_at 15 14]"
    "runActions board_demo [red_at 15 15] [(0, Up), (0, Down)] = Some [red_at 15 15]"
    "runActions board_demo [red_at 15 15] [(0, Up), (0, Down), (0, DLeft)] = Some [red_at 13 15]"
    by (simp_all add: moveOf_def newRobotsOf_def search_eval)
  moreover from this(3)
  have "isSolution board_demo [red_at 15 15] Red (13, 15) [(0, Up), (0, Down), (0, DLeft)]"
    by (simp add: isSolution_def targetAtGoal_def robots_eval)
  ultimately show ?thesis using demo_search by simp
qed

theorem search_misses_shorter_solution_witness:
  "\<exists>p ms. findPath board_demo [red_at 15 15] Red (13, 15) 0 7 = Inr (succeeded 4 p 4 7) \<and>
     isSolution board_demo [red_at 15 15] Red (13, 15) ms \<and> length ms < 4"
proof -
  from search_misses_shorter_solution obtain p where
    "findPath board_demo [red_at 15 15] Red (13, 15) 0 7 = Inr (succeeded 4 p 4 7)"
    "isSolution board_demo [red_at 15 15] Red (13, 15) [(0, Up), (0, Down), (0, DLeft)]"
    by blast
  then show ?thesis
    by (intro exI [where x = p] exI [where x = "[(0, Up), (0, Down), (0, DLeft)]"]) simp
qed

lemma searchRun_append:
  "searchRun b tc tp rs (ms @ ms') =
     (case searchRun b tc tp rs ms of None \<Rightarrow> None | Some rs' \<Rightarrow> searchRun b tc tp rs' ms')"
  by (induction ms arbitrary: rs) simp_all

lemma reach_0: "reach b tc tp rs0 0 rs \<longleftrightarrow> rs = rs0"
  by (auto simp: reach_def)

lemma reach_Suc:
  "reach b tc tp rs0 (Suc n) rs' \<longleftrightarrow>
     (\<exists>rs m. reach b tc tp rs0 n rs \<and> fst m < length rs \<and> moved (moveOf b rs m) \<and>
        \<not> targetAtGoal tc tp (newRobotsOf b rs m) \<and> rs' = newRobotsOf b rs m)"
proof
  assume "reach b tc tp rs0 (Suc n) rs'"
  then obtain ms where ms: "length ms = Suc n" "searchRun b tc tp rs0 ms = Some rs'"
    by (auto simp: reach_def)
  then obtain ms1 m where s: "ms = ms1 @ [m]" "length ms1 = n"
    by (cases ms rule: rev_cases) auto
  with ms(2) obtain rs where rs: "searchRun b tc tp rs0 ms1 = Some rs"
    "searchRun b tc tp rs [m] = Some rs'"
    by (auto simp: searchRun_append split: option.splits)
  from rs(2) have "fst m < length rs \<and> moved (moveOf b rs m) \<and>
        \<not> targetAtGoal tc tp (newRobotsOf b rs m) \<and> rs' = newRobotsOf b rs m"
    by (auto split: if_splits)
  moreover from rs(1) s(2) have "reach b tc tp rs0 n rs" by (auto simp: reach_def)
  ultimately show "\<exists>rs m. reach b tc tp rs0 n rs \<and> fst m < length rs \<and> moved (moveOf b rs m) \<and>
        \<not> targetAtGoal tc tp (newRobotsOf b rs m) \<and> rs' = newRobotsOf b rs m"
    by blast
next
  assume "\<exists>rs m. reach b tc tp rs0 n rs \<and> fst m < length rs \<and> moved (moveOf b rs m) \<and>
        \<not> targetAtGoal tc tp (newRobotsOf b rs m) \<and> rs' = newRobotsOf b rs m"
  then obtain rs m ms where r: "length ms = n" "searchRun b tc tp rs0 ms = Some rs"
    "fst m < length rs" "moved (moveOf b rs m)"
    "\<not> targetAtGoal tc tp (newRobotsOf b rs m)" "rs' = newRobotsOf b rs m"
    by (auto simp: reach_def)
  then have "length (ms @ [m]) = Suc n" "searchRun b tc tp rs0 (ms @ [m]) = Some rs'"
    by (simp_all add: searchRun_append)
  then show "reach b tc tp rs0 (Suc n) rs'" unfolding reach_def by blast
qed

lemma reach_step:
  "reach b tc tp rs0 n rs \<Longrightarrow> fst m < length rs \<Longrightarrow> moved (moveOf b rs m) \<Longrightarrow>
   \<not> targetAtGoal tc tp (newRobotsOf b rs m) \<Longrightarrow> reach b tc tp rs0 (Suc n) (newRobotsOf b rs m)"
  unfolding reach_Suc by blast

lemma reach_colors:
  "reach b tc tp rs0 n rs \<Longrightarrow> map robot_color rs = map robot_color rs0"
proof (induction n arbitrary: rs)
  case 0
  then show ?case by (simp add: reach_0)
next
  case (Suc n)
  then show ?case by (auto simp: reach_Suc colors_newRobotsOf)
qed

lemma color_index_inj: "color_index c = color_index c' \<Longrightarrow> c = c'"
  by (cases c; cases c') simp_all

text \<open>States of the same distinct colours with the same key are the same state.\<close>

lemma stateToString_inj:
  assumes c: "map robot_color rs = cols" "map robot_color rs' = cols" and d: "distinct cols"
    and k: "stateToString rs = stateToString rs'"
  shows "rs = rs'"
proof (rule nth_equalityI)
  from c show len: "length rs = length rs'" by (metis length_map)
  fix i assume i: "i < length rs"
  from k have "set (sort (map robotKey rs)) = set (sort (map robotKey rs'))"
    by (simp add: stateToString_def)
  then have "set (map robotKey rs) = set (map robotKey rs')"
    by (simp only: set_sort)
  with i have "robotKey (rs ! i) \<in> set (map robotKey rs')" by (metis length_map nth_map nth_mem)
  then obtain j where j: "j < length rs'" "robotKey (rs ! i) = robotKey (rs' ! j)"
    by (auto simp: in_set_conv_nth)
  then have "robot_color (rs ! i) = robot_color (rs' ! j)"
    by (auto simp: robotKey_def intro: color_index_inj)
  moreover from c i have "robot_color (rs ! i) = cols ! i" by (metis nth_map)
  moreover from c j have "robot_color (rs' ! j) = cols ! j" by (metis nth_map)
  moreover from c i j len have "i < length cols" "j < length cols" by (metis length_map)+
  ultimately have "i = j" using d by (simp add: nth_eq_iff_index_eq)
  with j show "rs ! i = rs' ! i" by (simp add: robotKey_def color_index_inj)
qed

lemma expandedD:
  "expanded b tc tp rs0 v rs \<Longrightarrow> fst m < length rs \<Longrightarrow> moved (moveOf b rs m) \<Longrightarrow>
   (if targetAtGoal tc tp (newRobotsOf b rs m) then rs = rs0
    else stateToString (newRobotsOf b rs m) \<in> set v)"
  unfolding expanded_def by blast

lemma expanded_mono: "expanded b tc tp rs0 v rs \<Longrightarrow> set v \<subseteq> set v' \<Longrightarrow> expanded b tc tp rs0 v' rs"
  unfolding expanded_def by (meson subsetD)

lemma bfsInv_initial:
  assumes "distinct (map robot_color rs0)"
  shows "bfsInv b tc tp rs0 [\<lparr>st_robots = rs0, st_path = [], st_steps = 0\<rparr>] [stateToString rs0]"
  unfolding bfsInv_def
  using stateToString_inj [OF _ refl assms]
  by (auto simp: reach_0)

lemma bfsInv_step:
  assumes dist: "distinct (map robot_color rs0)"
    and inv: "bfsInv b tc tp rs0 (cur # rest) v"
    and mr: "movesResult b tc tp el cur n (allMoves (st_robots cur)) rest v (Continue q' v')"
  shows "bfsInv b tc tp rs0 q' v'"
proof (cases "q' = []")
  case True
  then show ?thesis by (simp add: bfsInv_def)
next
  case ne: False
  let ?d = "st_steps cur"
  let ?key = "\<lambda>s. stateToString (st_robots s)"
  from inv have
    Q: "\<forall>s\<in>set (cur # rest). reach b tc tp rs0 (st_steps s) (st_robots s) \<and>
          (\<forall>n. reach b tc tp rs0 n (st_robots s) \<longrightarrow> st_steps s \<le> n) \<and> st_steps s \<le> ?d + 1"
    and S: "sorted (map st_steps (cur # rest))"
    and B: "\<forall>n rs. n \<le> ?d \<longrightarrow> reach b tc tp rs0 n rs \<longrightarrow> stateToString rs \<in> set v"
    and C: "\<forall>rs. map robot_color rs = map robot_color rs0 \<longrightarrow> stateToString rs \<in> set v \<longrightarrow>
          (\<exists>s\<in>set (cur # rest). st_robots s = rs) \<or> expanded b tc tp rs0 v rs"
    by (simp_all add: bfsInv_def)
  from Q have rc: "reach b tc tp rs0 ?d (st_robots cur)" by simp
  from mr obtain new where q': "q' = rest @ new"
    and v': "set v' = set v \<union> ?key ` set new"
    and N: "\<forall>s\<in>set new. \<exists>m\<in>set (allMoves (st_robots cur)). s = nextState b cur m \<and>
                moved (moveOf b (st_robots cur) m) \<and> \<not> targetAtGoal tc tp (st_robots s) \<and>
                stateToString (st_robots s) \<notin> set v"
    and E: "\<forall>m\<in>set (allMoves (st_robots cur)). moved (moveOf b (st_robots cur) m) \<longrightarrow>
                (if targetAtGoal tc tp (newRobotsOf b (st_robots cur) m) then ?d + 1 < 2
                 else stateToString (newRobotsOf b (st_robots cur) m) \<in> set v')"
    unfolding movesResult_def by auto
  have sub: "set v \<subseteq> set v'" using v' by auto
  have new: "st_steps s = ?d + 1 \<and> reach b tc tp rs0 (st_steps s) (st_robots s) \<and>
      (\<forall>n. reach b tc tp rs0 n (st_robots s) \<longrightarrow> st_steps s \<le> n)" if "s \<in> set new" for s
  proof -
    from N that obtain m where m: "fst m < length (st_robots cur)" "s = nextState b cur m"
      "moved (moveOf b (st_robots cur) m)" "\<not> targetAtGoal tc tp (st_robots s)"
      "stateToString (st_robots s) \<notin> set v"
      by (auto simp: set_allMoves)
    from m(2) have st: "st_steps s = ?d + 1" "st_robots s = newRobotsOf b (st_robots cur) m"
      by (simp_all add: nextState_def)
    from reach_step [OF rc m(1) m(3)] m(4) st
    have r: "reach b tc tp rs0 (st_steps s) (st_robots s)" by simp
    have "st_steps s \<le> k" if "reach b tc tp rs0 k (st_robots s)" for k
    proof (rule ccontr)
      assume "\<not> st_steps s \<le> k"
      with st have "k \<le> ?d" by simp
      with B that have "stateToString (st_robots s) \<in> set v" by blast
      with m(5) show False by simp
    qed
    with st r show ?thesis by blast
  qed
  have old: "reach b tc tp rs0 (st_steps s) (st_robots s) \<and>
      (\<forall>n. reach b tc tp rs0 n (st_robots s) \<longrightarrow> st_steps s \<le> n) \<and>
      ?d \<le> st_steps s \<and> st_steps s \<le> ?d + 1" if "s \<in> set rest" for s
    using Q S that by auto
  have all: "reach b tc tp rs0 (st_steps s) (st_robots s) \<and>
      (\<forall>n. reach b tc tp rs0 n (st_robots s) \<longrightarrow> st_steps s \<le> n) \<and>
      ?d \<le> st_steps s \<and> st_steps s \<le> ?d + 1" if "s \<in> set q'" for s
    using that new old q' by auto
  have S': "sorted (map st_steps q')"
  proof -
    from S have "sorted (map st_steps rest)" by simp
    moreover have "sorted (map st_steps new)"
      using new by (auto simp: sorted_iff_nth_mono)
    moreover have "\<forall>x\<in>set (map st_steps rest). \<forall>y\<in>set (map st_steps new). x \<le> y"
      using new old by auto
    ultimately show ?thesis by (simp add: q' sorted_append)
  qed
  let ?d' = "st_steps (hd q')"
  from ne have hd: "hd q' \<in> set q'" by simp
  with all have d': "?d \<le> ?d'" "?d' \<le> ?d + 1" by auto
  have least: "?d' \<le> st_steps s" if "s \<in> set q'" for s
  proof -
    from ne obtain h t where ht: "q' = h # t" by (cases q') auto
    with S' that show ?thesis by auto
  qed
  have C': "(\<exists>s\<in>set q'. st_robots s = rs) \<or> expanded b tc tp rs0 v' rs"
    if col: "map robot_color rs = map robot_color rs0" and k: "stateToString rs \<in> set v'" for rs
  proof (cases "stateToString rs \<in> set v")
    case True
    with C col consider "st_robots cur = rs" | "\<exists>s\<in>set rest. st_robots s = rs"
      | "expanded b tc tp rs0 v rs" by auto
    then show ?thesis
    proof cases
      case 1
      have "expanded b tc tp rs0 v' (st_robots cur)"
        unfolding expanded_def
      proof (intro allI impI)
        fix m assume m: "fst m < length (st_robots cur)" "moved (moveOf b (st_robots cur) m)"
        then have "m \<in> set (allMoves (st_robots cur))" by (simp add: set_allMoves)
        note Em = E [rule_format, OF this m(2)]
        show "if targetAtGoal tc tp (newRobotsOf b (st_robots cur) m) then st_robots cur = rs0
              else stateToString (newRobotsOf b (st_robots cur) m) \<in> set v'"
        proof (cases "targetAtGoal tc tp (newRobotsOf b (st_robots cur) m)")
          case True
          with Em have "?d + 1 < 2" by simp
          then have "?d = 0" by simp
          with rc have "st_robots cur = rs0" by (simp add: reach_0)
          with True show ?thesis by simp
        next
          case False
          with Em show ?thesis by simp
        qed
      qed
      with 1 show ?thesis by simp
    next
      case 2
      then show ?thesis by (auto simp: q')
    next
      case 3
      from expanded_mono [OF 3 sub] show ?thesis by simp
    qed
  next
    case False
    with k v' obtain s where s: "s \<in> set new" "stateToString rs = stateToString (st_robots s)"
      by auto
    from new [OF s(1)] have "map robot_color (st_robots s) = map robot_color rs0"
      by (auto dest: reach_colors)
    from stateToString_inj [OF col this dist s(2)] s(1) show ?thesis by (auto simp: q')
  qed
  have B': "stateToString rs \<in> set v'" if n: "k \<le> ?d'" and r: "reach b tc tp rs0 k rs" for k rs
  proof (cases "k \<le> ?d")
    case True
    with B r sub show ?thesis by blast
  next
    case False
    with n d' have k: "k = Suc ?d" "?d' = Suc ?d" by simp_all
    from r [unfolded k(1) reach_Suc] obtain rs1 m where
      m: "reach b tc tp rs0 ?d rs1" "fst m < length rs1" "moved (moveOf b rs1 m)"
        "\<not> targetAtGoal tc tp (newRobotsOf b rs1 m)" "rs = newRobotsOf b rs1 m"
      by blast
    from B m(1) sub have "stateToString rs1 \<in> set v'" by blast
    from C' [OF reach_colors [OF m(1)] this] show ?thesis
    proof
      assume "\<exists>s\<in>set q'. st_robots s = rs1"
      then obtain s where s: "s \<in> set q'" "st_robots s = rs1" by blast
      from all [OF s(1)] s(2) m(1) have "st_steps s \<le> ?d" by blast
      moreover from least [OF s(1)] k(2) have "Suc ?d \<le> st_steps s" by simp
      ultimately show ?thesis by simp
    next
      assume "expanded b tc tp rs0 v' rs1"
      from expandedD [OF this m(2,3)] m(4,5) show ?thesis by simp
    qed
  qed
  show ?thesis
    unfolding bfsInv_def
  proof (intro impI conjI ballI allI)
    fix s assume s: "s \<in> set q'"
    from all [OF s] show "reach b tc tp rs0 (st_steps s) (st_robots s)" by blast
    from all [OF s] d' show "st_steps s \<le> ?d' + 1" by simp
    fix k assume "reach b tc tp rs0 k (st_robots s)"
    with all [OF s] show "st_steps s \<le> k" by blast
  next
    show "sorted (map st_steps q')" by (rule S')
  next
    fix k rs assume "k \<le> ?d'" "reach b tc tp rs0 k rs"
    then show "stateToString rs \<in> set v'" by (rule B')
  next
    fix rs assume "map robot_color rs = map robot_color rs0" "stateToString rs \<in> set v'"
    then show "(\<exists>s\<in>set q'. st_robots s = rs) \<or> expanded b tc tp rs0 v' rs" by (rule C')
  qed
qed

lemma succeeded_steps: "succeeded k p n t = succeeded k' p' n' t' \<Longrightarrow> k = k'"
  by (simp add: succeeded_def)

lemma failedWith_not_succeeded: "failedWith f n t \<noteq> succeeded k p n' t'"
  by (simp add: succeeded_def failedWith_def)

lemma bfsInv_return:
  assumes inv: "bfsInv b tc tp rs0 (cur # rest) v"
    and mr: "movesResult b tc tp el cur n (allMoves (st_robots cur)) rest v (Return r)"
    and r: "r = succeeded k p n' el'"
  shows "leastLanding b tc tp rs0 k"
proof -
  let ?d = "st_steps cur"
  from inv have
    Q: "\<forall>s\<in>set (cur # rest). reach b tc tp rs0 (st_steps s) (st_robots s) \<and>
          (\<forall>n. reach b tc tp rs0 n (st_robots s) \<longrightarrow> st_steps s \<le> n) \<and> st_steps s \<le> ?d + 1"
    and S: "sorted (map st_steps (cur # rest))"
    and B: "\<forall>n rs. n \<le> ?d \<longrightarrow> reach b tc tp rs0 n rs \<longrightarrow> stateToString rs \<in> set v"
    and C: "\<forall>rs. map robot_color rs = map robot_color rs0 \<longrightarrow> stateToString rs \<in> set v \<longrightarrow>
          (\<exists>s\<in>set (cur # rest). st_robots s = rs) \<or> expanded b tc tp rs0 v rs"
    by (simp_all add: bfsInv_def)
  from mr obtain m where m: "\<not> ?d + 1 < 2" "fst m < length (st_robots cur)"
    "moved (moveOf b (st_robots cur) m)" "targetAtGoal tc tp (newRobotsOf b (st_robots cur) m)"
    "r = succeeded (?d + 1) (st_path (nextState b cur m)) n el"
    unfolding movesResult_def by (auto simp: set_allMoves)
  from m(5) r have k: "k = ?d + 1" by (auto dest: succeeded_steps)
  from Q have rc: "reach b tc tp rs0 ?d (st_robots cur)"
    and least: "\<forall>n. reach b tc tp rs0 n (st_robots cur) \<longrightarrow> ?d \<le> n" by simp_all
  have "st_robots cur \<noteq> rs0"
  proof
    assume "st_robots cur = rs0"
    then have "reach b tc tp rs0 0 (st_robots cur)" by (simp add: reach_0)
    with least have "?d \<le> 0" by blast
    with m(1) show False by simp
  qed
  moreover from rc obtain ms where ms: "length ms = ?d" "searchRun b tc tp rs0 ms = Some (st_robots cur)"
    by (auto simp: reach_def)
  moreover from ms(1) k have "length ms + 1 = k" by simp
  ultimately have ex: "\<exists>ms rs m. length ms + 1 = k \<and> searchRun b tc tp rs0 ms = Some rs \<and> rs \<noteq> rs0 \<and>
         fst m < length rs \<and> moved (moveOf b rs m) \<and> targetAtGoal tc tp (newRobotsOf b rs m)"
    using m(2-4) by blast
  have "k \<le> length ms + 1"
    if run: "searchRun b tc tp rs0 ms = Some rs" "rs \<noteq> rs0" "fst m' < length rs"
      "moved (moveOf b rs m')" "targetAtGoal tc tp (newRobotsOf b rs m')" for ms rs m'
  proof (rule ccontr)
    assume "\<not> k \<le> length ms + 1"
    with k have short: "length ms < ?d" by simp
    from run(1) have re: "reach b tc tp rs0 (length ms) rs" by (auto simp: reach_def)
    with B short have "stateToString rs \<in> set v" by (meson less_imp_le)
    with C reach_colors [OF re]
    have "(\<exists>s\<in>set (cur # rest). st_robots s = rs) \<or> expanded b tc tp rs0 v rs" by blast
    then show False
    proof
      assume "\<exists>s\<in>set (cur # rest). st_robots s = rs"
      then obtain s where s: "s \<in> set (cur # rest)" "st_robots s = rs" by blast
      with Q re have "st_steps s \<le> length ms" by blast
      moreover from S s(1) have "?d \<le> st_steps s" by auto
      ultimately show False using short by simp
    next
      assume "expanded b tc tp rs0 v rs"
      from expandedD [OF this run(3,4)] run(2,5) show False by simp
    qed
  qed
  with ex show ?thesis unfolding leastLanding_def by blast
qed

lemma bfsLoop_least:
  "bfsInv b tc tp rs0 queue visited \<Longrightarrow>
   bfsLoop b tc tp el queue visited n = Inr (succeeded k p n' el') \<Longrightarrow>
   tc \<in> set (map robot_color rs0) \<Longrightarrow> distinct (map robot_color rs0) \<Longrightarrow>
   leastLanding b tc tp rs0 k"
proof (induction b tc tp el queue visited n rule: bfsLoop.induct)
  case (1 b tc tp el queue visited n)
  show ?case
  proof (cases queue)
    case Nil
    with "1.prems"(2) show ?thesis by (simp add: bfsLoop_empty failedWith_not_succeeded)
  next
    case (Cons cur rest)
    show ?thesis
    proof (cases "n > maxIterations")
      case True
      with "1.prems"(2) show ?thesis
        by (simp add: Cons bfsLoop_exhausted failedWith_not_succeeded)
    next
      case False
      let ?ex = "tryMoves b tc tp el cur (n + 1) (allMoves (st_robots cur)) rest visited"
      from "1.prems"(1) Cons have inv: "bfsInv b tc tp rs0 (cur # rest) visited" by simp
      then have "reach b tc tp rs0 (st_steps cur) (st_robots cur)" by (simp add: bfsInv_def)
      from reach_colors [OF this] "1.prems"(3)
      have c: "tc \<in> set (map robot_color (st_robots cur))" by simp
      note mr = movesResult_allMoves [OF c, of b tp el "n + 1" rest visited]
      show ?thesis
      proof (cases ?ex)
        case Throw
        with mr show ?thesis by (simp add: movesResult_def)
      next
        case (Return r)
        with "1.prems"(2) False have "r = succeeded k p n' el'" by (simp add: Cons bfsLoop_step)
        from bfsInv_return [OF inv mr [unfolded Return] this] show ?thesis .
      next
        case (Continue q' v')
        from bfsInv_step [OF "1.prems"(4) inv mr [unfolded Continue]]
        have inv': "bfsInv b tc tp rs0 q' v'" .
        from "1.prems"(2) Continue False
        have "bfsLoop b tc tp el q' v' (n + 1) = Inr (succeeded k p n' el')"
          by (simp add: Cons bfsLoop_step)
        from "1.IH" [OF Cons False Continue inv' this "1.prems"(3,4)] show ?thesis .
      qed
    qed
  qed
qed

lemma failed_not_succeeded: "failed f \<noteq> succeeded k p n t"
  by (simp add: succeeded_def failed_def)

text \<open>
  What the search does guarantee, for robots of distinct colours: a success with \<open>k \<ge> 2\<close>
  steps comes from a run of \<open>k - 1\<close> actions of the search that ends in a state other than
  the initial one, followed by a landing on the target position; and no such run followed
  by a landing has fewer actions. Runs through the initial joint state, like up, down, left
  on the board of the examples, are not among them.
\<close>

lemma findPath_least_landing:
  assumes dist: "distinct (map robot_color robots)"
    and res: "findPath b robots c tp startTime now = Inr (succeeded k p n t)"
    and k: "2 \<le> k"
  shows "leastLanding b c tp robots k"
proof (cases "find (\<lambda>r. robot_color r = c) robots")
  case None
  with res show ?thesis by (simp add: findPath_def failed_not_succeeded)
next
  case (Some tr)
  then have tr: "robot_color tr = c" "tr \<in> set robots"
    by (auto simp: find_Some_iff in_set_conv_nth)
  then have c: "c \<in> set (map robot_color robots)" by auto
  from res Some k tr(1)
  have "bfsLoop b c tp (now - startTime) [\<lparr>st_robots = robots, st_path = [], st_steps = 0\<rparr>]
          [stateToString robots] 0 = Inr (succeeded k p n t)"
    by (auto simp: findPath_def bfsSearch_def failed_not_succeeded split: if_splits
        dest: succeeded_steps)
  from bfsLoop_least [OF bfsInv_initial [OF dist] this c dist] show ?thesis .
qed

lemma demo_least_landing: "leastLanding board_demo Red (13, 15) [red_at 15 15] 4"
proof -
  from demo_search obtain p where
    "findPath board_demo [red_at 15 15] Red (13, 15) 0 7 = Inr (succeeded 4 p 4 7)" by blast
  from findPath_least_landing [OF _ this] show ?thesis by (simp add: robots_eval)
qed

end
